theory Spec2Isabelle
  imports Main "HOL-Library.Monad_Syntax"
begin

section \<open>The Google Chat loader (gchat.py)\<close>

text \<open>
  The loader reads a Takeout export: a list of messages (JSON objects) and, for spaces, the
  membership roster of the user. The model starts after \<open>json.load\<close>: the list under the
  key \<open>messages\<close> and the list under the key \<open>membership_info\<close> are the inputs.

  A message is a JSON object whose fields may be missing; a field that is there is a string
  (\<open>creator\<close> is an object with a \<open>name\<close>). A missing field is \<open>None\<close>, which is what
  \<open>dict.get\<close> tests. Strings are lists of \<open>char\<close>, read as the code points below 256.
\<close>

subsection \<open>Data model\<close>

record creator =
  name :: "string option"

record message =
  creator :: "creator option"
  msg_text :: "string option"
  created_date :: "string option"
  message_id :: "string option"

text \<open>
  A roster entry is read with \<open>item['group_id']\<close> (a missing key raises) and with
  \<open>'group_name' in item and item['group_name'] is not None\<close>: the name may be missing,
  null or a string.
\<close>

datatype 'a field = Missing | Null | Present 'a

record membership =
  group_id :: "string option"
  group_name :: "string field"

text \<open>The \<open>name\<close> entry of the metadata is a string for a space, a list of strings for a DM.\<close>

datatype name_value = NameStr string | NameList "string list"

record metadata =
  md_source :: string
  md_type :: string
  md_name :: name_value
  md_message_id :: string
  md_date :: string
  md_unix_time :: "int option"
  md_url :: string

record document =
  doc_metadata :: metadata
  doc_text :: string

datatype error = IndexError | KeyError | ValueError

subsection \<open>Python primitives\<close>

definition bind_err :: "error + 'a \<Rightarrow> ('a \<Rightarrow> error + 'b) \<Rightarrow> error + 'b" where
  "bind_err r f = (case r of Inl e \<Rightarrow> Inl e | Inr x \<Rightarrow> f x)"

text \<open>\<open>xs[i]\<close>: a negative index counts from the end, an index out of range raises.\<close>

definition index :: "'a list \<Rightarrow> int \<Rightarrow> error + 'a" where
  "index xs i =
     (let pos = (if i < 0 then i + int (length xs) else i)
      in if pos < 0 \<or> int (length xs) \<le> pos then Inl IndexError
         else Inr (xs ! nat pos))"

text \<open>\<open>d.get(key, default)\<close> on a field that may be missing.\<close>

definition get :: "'a option \<Rightarrow> 'a \<Rightarrow> 'a" where
  "get v dflt = (case v of None \<Rightarrow> dflt | Some x \<Rightarrow> x)"

text \<open>\<open>range(start, stop, step)\<close>, as the list of its values (empty unless the step is positive
  and \<open>start < stop\<close>; the loader only uses positive steps).\<close>

function py_range :: "int \<Rightarrow> int \<Rightarrow> int \<Rightarrow> int list" where
  "py_range start stop step =
     (if 0 < step \<and> start < stop then start # py_range (start + step) stop step else [])"
  by pat_completeness auto
termination
  by (relation "measure (\<lambda>(start, stop, step). nat (stop - start))") auto

declare py_range.simps [simp del]

text \<open>
  \<open>str.replace(old, new)\<close>: every occurrence of \<open>old\<close>, leftmost first and without
  overlap (the loader only replaces non-empty strings).
\<close>

fun starts_with :: "string \<Rightarrow> string \<Rightarrow> bool" where
  "starts_with s [] = True"
| "starts_with [] (p # ps) = False"
| "starts_with (c # cs) (p # ps) = (c = p \<and> starts_with cs ps)"

function replace :: "string \<Rightarrow> string \<Rightarrow> string \<Rightarrow> string" where
  "replace [] old new = []"
| "replace (c # cs) old new =
     (if old \<noteq> [] \<and> starts_with (c # cs) old
      then new @ replace (drop (length old) (c # cs)) old new
      else c # replace cs old new)"
  by pat_completeness auto
termination
  by (relation "measure (\<lambda>(s, old, new). length s)") auto

text \<open>
  \<open>str.strip()\<close> removes the white space of both ends. White space is what \<open>str.isspace\<close>
  says, which is also the class \<open>\s\<close> of \<open>re\<close>: below 256 these are the code points
  9 to 13, 28 to 32, 133 and 160.
\<close>

definition is_space :: "char \<Rightarrow> bool" where
  "is_space c = (c \<in> set [CHR 0x09, CHR 0x0A, CHR 0x0B, CHR 0x0C, CHR 0x0D,
                           CHR 0x1C, CHR 0x1D, CHR 0x1E, CHR 0x1F, CHR 0x20,
                           CHR 0x85, CHR 0xA0])"

definition strip :: "string \<Rightarrow> string" where
  "strip s = rev (dropWhile is_space (rev (dropWhile is_space s)))"

text \<open>\<open>str.split('/')[0]\<close>: the part before the first slash, the whole string without one.\<close>

definition split_first :: "string \<Rightarrow> char \<Rightarrow> string" where
  "split_first s sep = takeWhile (\<lambda>c. c \<noteq> sep) s"

text \<open>\<open>a in b\<close> on strings, as \<open>contains b a\<close>: \<open>a\<close> occurs in \<open>b\<close>.\<close>

fun contains :: "string \<Rightarrow> string \<Rightarrow> bool" where
  "contains [] a = (a = [])"
| "contains (c # cs) a = (starts_with (c # cs) a \<or> contains cs a)"

subsection \<open>The library's date arithmetic (module datetime)\<close>

record datetime =
  dt_year :: int
  dt_month :: int
  dt_day :: int
  dt_hour :: int
  dt_minute :: int
  dt_second :: int

definition is_leap :: "int \<Rightarrow> bool" where
  "is_leap y = (y mod 4 = 0 \<and> (y mod 100 \<noteq> 0 \<or> y mod 400 = 0))"

definition days_before_year :: "int \<Rightarrow> int" where
  "days_before_year year = (let y = year - 1 in y * 365 + y div 4 - y div 100 + y div 400)"

definition days_in_month :: "int \<Rightarrow> int \<Rightarrow> int" where
  "days_in_month year month =
     (if month = 2 \<and> is_leap year then 29
      else [31, 28, 31, 30, 31, 30, 31, 31, 30, 31, 30, 31] ! nat (month - 1))"

definition days_before_month :: "int \<Rightarrow> int \<Rightarrow> int" where
  "days_before_month year month =
     [0, 31, 59, 90, 120, 151, 181, 212, 243, 273, 304, 334] ! nat (month - 1)
       + (if month > 2 \<and> is_leap year then 1 else 0)"

definition ymd2ord :: "int \<Rightarrow> int \<Rightarrow> int \<Rightarrow> int" where
  "ymd2ord year month day = days_before_year year + days_before_month year month + day"

text \<open>The constructor \<open>datetime(...)\<close> raises \<open>ValueError\<close> on a field out of range.\<close>

definition datetime_new :: "int \<Rightarrow> int \<Rightarrow> int \<Rightarrow> int \<Rightarrow> int \<Rightarrow> int \<Rightarrow> error + datetime" where
  "datetime_new y m d hh mm ss =
     (if 1 \<le> y \<and> y \<le> 9999 \<and> 1 \<le> m \<and> m \<le> 12 \<and> 1 \<le> d \<and> d \<le> days_in_month y m
         \<and> 0 \<le> hh \<and> hh \<le> 23 \<and> 0 \<le> mm \<and> mm \<le> 59 \<and> 0 \<le> ss \<and> ss \<le> 59
      then Inr \<lparr>dt_year = y, dt_month = m, dt_day = d,
                dt_hour = hh, dt_minute = mm, dt_second = ss\<rparr>
      else Inl ValueError)"

text \<open>
  \<open>int(dt.replace(tzinfo=pytz.utc).timestamp())\<close>: the fields read as UTC, in seconds since
  1970-01-01 (whose ordinal is 719163).
\<close>

definition timestamp_utc :: "datetime \<Rightarrow> int" where
  "timestamp_utc dt =
     (ymd2ord (dt_year dt) (dt_month dt) (dt_day dt) - 719163) * 86400
       + dt_hour dt * 3600 + dt_minute dt * 60 + dt_second dt"

subsection \<open>The library's parser (module strptime), for the loader's format\<close>

text \<open>
  \<open>strptime\<close> turns the format into a regular expression, matched ignoring case at the
  start of the string: a directive becomes a group, white space becomes \<open>\s+\<close>, any other
  character stands for itself. For \<open>%A, %B %d, %Y at %I:%M:%S %p\<close> (English names):
  \<^verbatim>\<open>(?P<A>wednesday|thursday|saturday|tuesday|monday|friday|sunday),\s+\<close>
  \<^verbatim>\<open>(?P<B>september|february|november|december|january|october|august|march|april|june|july|may)\s+\<close>
  \<^verbatim>\<open>(?P<d>3[0-1]|[1-2]\d|0[1-9]|[1-9]| [1-9]),\s+(?P<Y>\d\d\d\d)\s+at\s+\<close>
  \<^verbatim>\<open>(?P<I>1[0-2]|0[1-9]|[1-9]):(?P<M>[0-5]\d|\d):(?P<S>6[0-1]|[0-5]\d|\d)\s+(?P<p>am|pm)\<close>
  The pieces below are tried in the order of the expression. Each group is followed by a
  character that no alternative of the group can go on with, so taking the first
  alternative that matches finds the match that backtracking finds.
\<close>

definition ascii_lower :: "char \<Rightarrow> char" where
  "ascii_lower c =
     (case map_of (zip ''ABCDEFGHIJKLMNOPQRSTUVWXYZ'' ''abcdefghijklmnopqrstuvwxyz'') c of
        None \<Rightarrow> c
      | Some l \<Rightarrow> l)"

definition is_digit :: "char \<Rightarrow> bool" where
  "is_digit c = (c \<in> set ''0123456789'')"

type_synonym 'a parser = "string \<Rightarrow> ('a \<times> string) option"

text \<open>A literal of the expression, ignoring case; the result is the rest of the input.\<close>

fun re_lit :: "string \<Rightarrow> string \<Rightarrow> string option" where
  "re_lit [] s = Some s"
| "re_lit (p # ps) [] = None"
| "re_lit (p # ps) (c # cs) = (if ascii_lower c = ascii_lower p then re_lit ps cs else None)"

text \<open>An alternation of names; the group is the text that matched.\<close>

fun re_seq :: "string list \<Rightarrow> string parser" where
  "re_seq [] s = None"
| "re_seq (n # ns) s =
     (case re_lit n s of
        Some r \<Rightarrow> Some (take (length n) s, r)
      | None \<Rightarrow> re_seq ns s)"

text \<open>\<open>\s+\<close>, greedy.\<close>

definition re_ws :: "string \<Rightarrow> string option" where
  "re_ws s =
     (case s of
        [] \<Rightarrow> None
      | c # cs \<Rightarrow> if is_space c then Some (dropWhile is_space cs) else None)"

definition cls1 :: "(char \<Rightarrow> bool) \<Rightarrow> string parser" where
  "cls1 P s = (case s of c # r \<Rightarrow> if P c then Some ([c], r) else None | _ \<Rightarrow> None)"

definition cls2 :: "(char \<Rightarrow> bool) \<Rightarrow> (char \<Rightarrow> bool) \<Rightarrow> string parser" where
  "cls2 P Q s =
     (case s of
        c # c' # r \<Rightarrow> if P c \<and> Q c' then Some ([c, c'], r) else None
      | _ \<Rightarrow> None)"

definition alt :: "'a parser \<Rightarrow> 'a parser \<Rightarrow> 'a parser" where
  "alt p q s = (case p s of Some x \<Rightarrow> Some x | None \<Rightarrow> q s)"

definition one_of :: "string \<Rightarrow> char \<Rightarrow> bool" where
  "one_of cs c = (c \<in> set cs)"

definition re_d :: "string parser" where
  "re_d = alt (cls2 (one_of ''3'') (one_of ''01''))
         (alt (cls2 (one_of ''12'') is_digit)
         (alt (cls2 (one_of ''0'') (one_of ''123456789''))
         (alt (cls1 (one_of ''123456789''))
              (cls2 (one_of '' '') (one_of ''123456789'')))))"

definition re_Y :: "string parser" where
  "re_Y s =
     (case s of
        a # b # c # d # r \<Rightarrow>
          if is_digit a \<and> is_digit b \<and> is_digit c \<and> is_digit d
          then Some ([a, b, c, d], r) else None
      | _ \<Rightarrow> None)"

definition re_I :: "string parser" where
  "re_I = alt (cls2 (one_of ''1'') (one_of ''012''))
         (alt (cls2 (one_of ''0'') (one_of ''123456789''))
              (cls1 (one_of ''123456789'')))"

definition re_M :: "string parser" where
  "re_M = alt (cls2 (one_of ''012345'') is_digit) (cls1 is_digit)"

definition re_S :: "string parser" where
  "re_S = alt (cls2 (one_of ''6'') (one_of ''01''))
         (alt (cls2 (one_of ''012345'') is_digit) (cls1 is_digit))"

text \<open>The names of the English locale, in calendar order and in the order of the expression
  (longest first).\<close>

definition f_weekday :: "string list" where
  "f_weekday = [''monday'', ''tuesday'', ''wednesday'', ''thursday'', ''friday'',
                ''saturday'', ''sunday'']"

definition f_month :: "string list" where
  "f_month = ['''', ''january'', ''february'', ''march'', ''april'', ''may'', ''june'', ''july'',
              ''august'', ''september'', ''october'', ''november'', ''december'']"

definition am_pm :: "string list" where
  "am_pm = [''am'', ''pm'']"

definition re_A_names :: "string list" where
  "re_A_names = [''wednesday'', ''thursday'', ''saturday'', ''tuesday'', ''monday'',
                 ''friday'', ''sunday'']"

definition re_B_names :: "string list" where
  "re_B_names = [''september'', ''february'', ''november'', ''december'', ''january'',
                 ''october'', ''august'', ''march'', ''april'', ''june'', ''july'', ''may'']"

record groups =
  g_A :: string
  g_B :: string
  g_d :: string
  g_Y :: string
  g_I :: string
  g_M :: string
  g_S :: string
  g_p :: string

text \<open>\<open>format_regex.match(data_string)\<close>: the groups and what is left of the string.\<close>

definition format_regex_match :: "groups parser" where
  "format_regex_match data_string =
     do {
       (gA, s) \<leftarrow> re_seq re_A_names data_string;
       s \<leftarrow> re_lit '','' s;
       s \<leftarrow> re_ws s;
       (gB, s) \<leftarrow> re_seq re_B_names s;
       s \<leftarrow> re_ws s;
       (gd, s) \<leftarrow> re_d s;
       s \<leftarrow> re_lit '','' s;
       s \<leftarrow> re_ws s;
       (gY, s) \<leftarrow> re_Y s;
       s \<leftarrow> re_ws s;
       s \<leftarrow> re_lit ''at'' s;
       s \<leftarrow> re_ws s;
       (gI, s) \<leftarrow> re_I s;
       s \<leftarrow> re_lit '':'' s;
       (gM, s) \<leftarrow> re_M s;
       s \<leftarrow> re_lit '':'' s;
       (gS, s) \<leftarrow> re_S s;
       s \<leftarrow> re_ws s;
       (gp, s) \<leftarrow> re_seq am_pm s;
       Some (\<lparr>g_A = gA, g_B = gB, g_d = gd, g_Y = gY, g_I = gI, g_M = gM, g_S = gS,
               g_p = gp\<rparr>, s)
     }"

text \<open>\<open>int(s)\<close> on a group: decimal digits, white space around them ignored.\<close>

definition digit_val :: "char \<Rightarrow> int" where
  "digit_val c = int (of_char c) - 48"

definition py_int :: "string \<Rightarrow> int" where
  "py_int s = foldl (\<lambda>a c. 10 * a + digit_val c) 0 (strip s)"

text \<open>\<open>list.index\<close> on a list that holds the value.\<close>

fun list_index :: "'a list \<Rightarrow> 'a \<Rightarrow> int" where
  "list_index [] x = 0"
| "list_index (y # ys) x = (if y = x then 0 else 1 + list_index ys x)"

text \<open>
  The hour of a 12-hour clock: 12 AM is 0, 12 PM is 12, the other PM hours gain 12
  (\<open>ampm\<close> is the group \<open>p\<close> in lower case; the library reads an absent group as AM).
\<close>

definition hour_of :: "int \<Rightarrow> string \<Rightarrow> int" where
  "hour_of h ampm =
     (if ampm = [] \<or> ampm = am_pm ! 0 then (if h = 12 then 0 else h)
      else if ampm = am_pm ! 1 then (if h \<noteq> 12 then h + 12 else h)
      else h)"

definition chat_format :: string where
  "chat_format = ''%A, %B %d, %Y at %I:%M:%S %p''"

text \<open>
  \<open>datetime.strptime(data_string, format)\<close>. Only the loader's format is modelled. No match,
  text left after the match and a date that does not exist all raise \<open>ValueError\<close>. The
  weekday has to be a name, and is not compared with the date.
\<close>

definition strptime :: "string \<Rightarrow> string \<Rightarrow> error + datetime" where
  "strptime data_string format =
     (if format = chat_format then
        (case format_regex_match data_string of
           None \<Rightarrow> Inl ValueError
         | Some (found, rest) \<Rightarrow>
             if rest \<noteq> [] then Inl ValueError
             else
               let year = py_int (g_Y found);
                   month = list_index f_month (map ascii_lower (g_B found));
                   day = py_int (g_d found);
                   hour = hour_of (py_int (g_I found)) (map ascii_lower (g_p found));
                   minute = py_int (g_M found);
                   second = py_int (g_S found)
               in datetime_new year month day hour minute second)
      else undefined)"

subsection \<open>The conversion of a date (datetime to epoch)\<close>

text \<open>
  The result is \<open>Inr None\<close> for Python's \<open>None\<close>. Only \<open>ValueError\<close> is caught; any other
  exception would leave the function.
\<close>

definition datetime_to_epoch :: "string \<Rightarrow> error + int option" where
  "datetime_to_epoch datetime_str =
     (if datetime_str = ''Unknown Date'' then Inr None
      else
        let datetime_format = ''%A, %B %d, %Y at %I:%M:%S %p %Z'' in
        case strptime (strip (replace datetime_str ''UTC'' ''''))
                      (strip (replace datetime_format ''%Z'' '''')) of
          Inr datetime_obj \<Rightarrow> Inr (Some (timestamp_utc datetime_obj))
        | Inl ValueError \<Rightarrow> Inr None
        | Inl e \<Rightarrow> Inl e)"

subsection \<open>The name of a space (get space name)\<close>

text \<open>
  The loop over \<open>membership_info\<close>: an entry whose \<open>group_id\<close> holds the group part and
  that has a name which is not null ends the search; any other entry is passed over.
\<close>

fun space_loop :: "membership list \<Rightarrow> string \<Rightarrow> error + string" where
  "space_loop [] group_id_part = Inr ''Unknown Space''"
| "space_loop (item # items) group_id_part =
     (case group_id item of
        None \<Rightarrow> Inl KeyError
      | Some gid \<Rightarrow>
          if contains gid group_id_part then
            (case group_name item of
               Present n \<Rightarrow> Inr n
             | _ \<Rightarrow> space_loop items group_id_part)
          else space_loop items group_id_part)"

definition get_space_name :: "membership list \<Rightarrow> string \<Rightarrow> error + string" where
  "get_space_name membership_info mid =
     (let group_id_part = split_first mid (CHR ''/'')
      in space_loop membership_info group_id_part)"

subsection \<open>The window loop shared by both variants\<close>

text \<open>
  The empty dict \<open>{}\<close> that \<open>j_message.get('creator', {})\<close> falls back to has no name.
\<close>

definition empty_creator :: creator where
  "empty_creator = \<lparr>name = None\<rparr>"

text \<open>The block \<open>f"{j_name}\n{j_text}\n\n"\<close> of one message.\<close>

definition part :: "message \<Rightarrow> string" where
  "part j_message =
     (let j_creator = get (creator j_message) empty_creator;
          j_name = get (name j_creator) ''Unknown'';
          j_text = get (msg_text j_message) ''No text available''
      in j_name @ ''\<newline>'' @ j_text @ ''\<newline>\<newline>'')"

text \<open>The inner loop \<open>for j in range(...)\<close>, appending to \<open>text_parts\<close>.\<close>

fun text_loop :: "message list \<Rightarrow> int list \<Rightarrow> string list \<Rightarrow> error + string list" where
  "text_loop messages [] text_parts = Inr text_parts"
| "text_loop messages (j # js) text_parts =
     bind_err (index messages j)
       (\<lambda>j_message. text_loop messages js (text_parts @ [part j_message]))"

definition window_text :: "message list \<Rightarrow> int \<Rightarrow> error + string" where
  "window_text messages i =
     bind_err
       (text_loop messages
          (py_range (max 0 (i - 10)) (min (int (length messages)) (i + 11)) 1) [])
       (\<lambda>text_parts. Inr (concat text_parts))"

subsection \<open>The two variants (process spaces, process dms)\<close>

definition space_name_of :: "message list \<Rightarrow> membership list \<Rightarrow> error + string" where
  "space_name_of messages membership_info =
     (if messages \<noteq> [] then
        bind_err (index messages 0)
          (\<lambda>m. get_space_name membership_info (get (message_id m) ''''))
      else Inr ''Unknown Space'')"

definition space_document :: "message list \<Rightarrow> string \<Rightarrow> int \<Rightarrow> error + document" where
  "space_document messages space_name i =
     bind_err (index messages i) (\<lambda>middlemessage.
     bind_err (index messages (i - 10)) (\<lambda>startmessage.
     bind_err (datetime_to_epoch (get (created_date middlemessage) ''Unknown Date''))
       (\<lambda>unix_time.
       let md = \<lparr>md_source = ''chats'',
                 md_type = ''space'',
                 md_name = NameStr space_name,
                 md_message_id = get (message_id startmessage) ''Unknown ID'',
                 md_date = get (created_date middlemessage) ''Unknown Date'',
                 md_unix_time = unix_time,
                 md_url = ''https://chat.google.com/room/''
                            @ get (message_id startmessage) ''''\<rparr>
       in bind_err (window_text messages i) (\<lambda>text_str.
            Inr \<lparr>doc_metadata = md, doc_text = text_str\<rparr>))))"

fun spaces_loop ::
  "message list \<Rightarrow> string \<Rightarrow> int list \<Rightarrow> document list \<Rightarrow> error + document list" where
  "spaces_loop messages space_name [] result = Inr result"
| "spaces_loop messages space_name (i # is) result =
     bind_err (space_document messages space_name i)
       (\<lambda>d. spaces_loop messages space_name is (result @ [d]))"

definition process_spaces :: "message list \<Rightarrow> membership list \<Rightarrow> error + document list" where
  "process_spaces messages membership_info =
     bind_err (space_name_of messages membership_info) (\<lambda>space_name.
       spaces_loop messages space_name (py_range 10 (int (length messages)) 19) [])"

text \<open>The first loop of \<open>process_dms\<close>: the names in the order in which they first appear.\<close>

fun names_loop :: "message list \<Rightarrow> string list \<Rightarrow> string list" where
  "names_loop [] unique_names = unique_names"
| "names_loop (m # ms) unique_names =
     (let creator_name = get (name (get (creator m) empty_creator)) ''Unknown''
      in if creator_name \<notin> set unique_names
         then names_loop ms (unique_names @ [creator_name])
         else names_loop ms unique_names)"

definition dm_document :: "message list \<Rightarrow> string list \<Rightarrow> int \<Rightarrow> error + document" where
  "dm_document messages unique_names i =
     bind_err (index messages i) (\<lambda>middlemessage.
     bind_err (index messages (i - 10)) (\<lambda>startmessage.
     bind_err (datetime_to_epoch (get (created_date middlemessage) ''Unknown Date''))
       (\<lambda>unix_time.
       let md = \<lparr>md_source = ''chats'',
                 md_type = ''dm'',
                 md_name = NameList unique_names,
                 md_message_id = get (message_id startmessage) ''Unknown ID'',
                 md_date = get (created_date middlemessage) ''Unknown Date'',
                 md_unix_time = unix_time,
                 md_url = ''https://chat.google.com/dm/''
                            @ get (message_id startmessage) ''''\<rparr>
       in bind_err (window_text messages i) (\<lambda>text_str.
            Inr \<lparr>doc_metadata = md, doc_text = text_str\<rparr>))))"

fun dms_loop ::
  "message list \<Rightarrow> string list \<Rightarrow> int list \<Rightarrow> document list \<Rightarrow> error + document list" where
  "dms_loop messages unique_names [] result = Inr result"
| "dms_loop messages unique_names (i # is) result =
     bind_err (dm_document messages unique_names i)
       (\<lambda>d. dms_loop messages unique_names is (result @ [d]))"

definition process_dms :: "message list \<Rightarrow> error + document list" where
  "process_dms messages =
     (let unique_names = names_loop messages []
      in dms_loop messages unique_names (py_range 10 (int (length messages)) 19) [])"

section \<open>Reference definitions\<close>

subsection \<open>The window, in the words of the specification\<close>

text \<open>
  The creator's name of a message with its fallback, the block of a message, and the text
  of the window centred on \<open>i\<close>: the blocks of the messages at the indices
  \<open>max 0 (i - 10)\<close> to \<open>min (length - 1) (i + 10)\<close>, in order.
\<close>

definition spec_name :: "message \<Rightarrow> string" where
  "spec_name m =
     (case creator m of
        None \<Rightarrow> ''Unknown''
      | Some c \<Rightarrow> (case name c of None \<Rightarrow> ''Unknown'' | Some n \<Rightarrow> n))"

definition spec_block :: "message \<Rightarrow> string" where
  "spec_block m =
     spec_name m @ ''\<newline>''
       @ (case msg_text m of None \<Rightarrow> ''No text available'' | Some t \<Rightarrow> t) @ ''\<newline>\<newline>''"

definition spec_window :: "message list \<Rightarrow> int \<Rightarrow> string" where
  "spec_window messages i =
     concat (map (\<lambda>j. spec_block (messages ! nat j))
                 [max 0 (i - 10) .. min (int (length messages) - 1) (i + 10)])"

text \<open>The time of a date string, none when the conversion gives none.\<close>

definition unix_time_of :: "string \<Rightarrow> int option" where
  "unix_time_of s = (case datetime_to_epoch s of Inr t \<Rightarrow> t | Inl e \<Rightarrow> None)"

text \<open>
  The document of the window centred on \<open>i\<close>: the anchor-start message is at \<open>i - 10\<close>,
  the anchor-mid message at \<open>i\<close>; the type tag, the name and the prefix of the url are
  what the two variants differ in.
\<close>

definition spec_document ::
  "string \<Rightarrow> name_value \<Rightarrow> string \<Rightarrow> message list \<Rightarrow> int \<Rightarrow> document" where
  "spec_document type_tag nm url messages i =
     (let anchor_start = messages ! nat (i - 10);
          anchor_mid = messages ! nat i;
          date = (case created_date anchor_mid of None \<Rightarrow> ''Unknown Date'' | Some d \<Rightarrow> d)
      in \<lparr>doc_metadata =
            \<lparr>md_source = ''chats'', md_type = type_tag, md_name = nm,
             md_message_id =
               (case message_id anchor_start of None \<Rightarrow> ''Unknown ID'' | Some x \<Rightarrow> x),
             md_date = date,
             md_unix_time = unix_time_of date,
             md_url = url @ (case message_id anchor_start of None \<Rightarrow> '''' | Some x \<Rightarrow> x)\<rparr>,
           doc_text = spec_window messages i\<rparr>)"

text \<open>A roster every entry of which has a \<open>group_id\<close>.\<close>

definition roster_ok :: "membership list \<Rightarrow> bool" where
  "roster_ok membership_info = list_all (\<lambda>item. group_id item \<noteq> None) membership_info"

text \<open>The elements of a list, each once, in the order of their first occurrence.\<close>

fun first_seen :: "'a list \<Rightarrow> 'a list" where
  "first_seen [] = []"
| "first_seen (x # xs) = x # first_seen (removeAll x xs)"

subsection \<open>The roster search, in two readings\<close>

text \<open>
  An entry matches when its \<open>group_id\<close> contains the group part. In the first reading the
  first entry that matches decides (its name, or \<open>Unknown Space\<close> when it has none); in
  the second the first entry that matches and has a name does.
\<close>

definition entry_matches :: "string \<Rightarrow> membership \<Rightarrow> bool" where
  "entry_matches p item = (case group_id item of None \<Rightarrow> False | Some gid \<Rightarrow> contains gid p)"

definition has_name :: "membership \<Rightarrow> bool" where
  "has_name item = (case group_name item of Present n \<Rightarrow> True | _ \<Rightarrow> False)"

definition name_or_unknown :: "membership \<Rightarrow> string" where
  "name_or_unknown item = (case group_name item of Present n \<Rightarrow> n | _ \<Rightarrow> ''Unknown Space'')"

definition first_match_wins :: "membership list \<Rightarrow> string \<Rightarrow> string" where
  "first_match_wins membership_info p =
     (case find (entry_matches p) membership_info of
        None \<Rightarrow> ''Unknown Space''
      | Some item \<Rightarrow> name_or_unknown item)"

definition first_named_match_wins :: "membership list \<Rightarrow> string \<Rightarrow> string" where
  "first_named_match_wins membership_info p =
     (case find (\<lambda>item. entry_matches p item \<and> has_name item) membership_info of
        None \<Rightarrow> ''Unknown Space''
      | Some item \<Rightarrow> name_or_unknown item)"

subsection \<open>Sample inputs\<close>

text \<open>
  Thirty messages: the windows are centred on 10 and 29. The first message has an id, the
  one at 10 a date, the one at 19 nothing, the last a date that is none. In the roster the
  first entry for the group \<open>AAA\<close> has no name.
\<close>

definition plain_message :: message where
  "plain_message = \<lparr>creator = None, msg_text = None, created_date = None, message_id = None\<rparr>"

definition ann_message :: message where
  "ann_message =
     \<lparr>creator = Some \<lparr>name = Some ''Ann''\<rparr>, msg_text = Some ''hi'',
      created_date = Some ''Unknown Date'', message_id = Some ''AAA/m1''\<rparr>"

definition bob_message :: message where
  "bob_message =
     \<lparr>creator = Some \<lparr>name = Some ''Bob''\<rparr>, msg_text = None,
      created_date = Some ''Monday, January 1, 2024 at 09:30:00 AM UTC'',
      message_id = Some ''AAA/m11''\<rparr>"

definition eve_message :: message where
  "eve_message =
     \<lparr>creator = Some \<lparr>name = None\<rparr>, msg_text = Some ''bye'',
      created_date = Some ''garbage'', message_id = None\<rparr>"

definition demo_messages :: "message list" where
  "demo_messages =
     ann_message # replicate 9 plain_message @ bob_message # replicate 18 plain_message
       @ [eve_message]"

definition demo_roster :: "membership list" where
  "demo_roster =
     [\<lparr>group_id = Some ''Space AAA'', group_name = Missing\<rparr>,
      \<lparr>group_id = Some ''Space BBB'', group_name = Present ''Team B''\<rparr>,
      \<lparr>group_id = Some ''Space AAA'', group_name = Present ''Team A''\<rparr>]"

text \<open>Four messages by A, B, A and C.\<close>

definition abac_messages :: "message list" where
  "abac_messages =
     map (\<lambda>n. \<lparr>creator = Some \<lparr>name = Some n\<rparr>, msg_text = None, created_date = None,
                message_id = None\<rparr>) [''A'', ''B'', ''A'', ''C'']"

subsection \<open>Dates as the export writes them\<close>

text \<open>\<open>ends_in s r\<close>: the string \<open>s\<close> ends with \<open>r\<close>.\<close>

definition ends_in :: "string \<Rightarrow> string \<Rightarrow> bool" where
  "ends_in s r = (\<exists>q. s = q @ r)"

text \<open>
  \<open>Weekday, Month Day, Year at HH:MM:SS AM/PM\<close>: the weekday counted from Monday, the
  month from 1, the day without a leading zero, the year with four digits, the hour of the
  12-hour clock, the minutes and the seconds with two digits.
\<close>

definition weekday_names :: "string list" where
  "weekday_names = [''Monday'', ''Tuesday'', ''Wednesday'', ''Thursday'', ''Friday'',
                    ''Saturday'', ''Sunday'']"

definition month_names :: "string list" where
  "month_names = [''January'', ''February'', ''March'', ''April'', ''May'', ''June'', ''July'',
                  ''August'', ''September'', ''October'', ''November'', ''December'']"

definition digit_char :: "nat \<Rightarrow> char" where
  "digit_char k = ''0123456789'' ! k"

definition two_digits :: "nat \<Rightarrow> string" where
  "two_digits n = [digit_char (n div 10), digit_char (n mod 10)]"

definition four_digits :: "nat \<Rightarrow> string" where
  "four_digits n = [digit_char (n div 1000), digit_char (n div 100 mod 10),
                    digit_char (n div 10 mod 10), digit_char (n mod 10)]"

definition day_digits :: "nat \<Rightarrow> string" where
  "day_digits d = (if d < 10 then [digit_char d] else two_digits d)"

definition am_or_pm :: "bool \<Rightarrow> string" where
  "am_or_pm pm = (if pm then ''PM'' else ''AM'')"

definition render_date ::
  "nat \<Rightarrow> nat \<Rightarrow> nat \<Rightarrow> nat \<Rightarrow> nat \<Rightarrow> nat \<Rightarrow> nat \<Rightarrow> bool \<Rightarrow> string" where
  "render_date wd mo d y h mi s pm =
     weekday_names ! wd @ '', '' @ month_names ! (mo - 1) @ '' '' @ day_digits d @ '', ''
       @ four_digits y @ '' at '' @ two_digits h @ '':'' @ two_digits mi @ '':''
       @ two_digits s @ '' '' @ am_or_pm pm"

section \<open>Properties\<close>

subsection \<open>The window centres\<close>

lemma py_range_length:
  "0 < s \<Longrightarrow> length (py_range a n s) = nat ((n - a + s - 1) div s)"
proof (induction a n s rule: py_range.induct)
  case (1 start stop step)
  show ?case
  proof (cases "start < stop")
    case True
    have "stop - start + step - 1 = (stop - (start + step) + step - 1) + step"
      by simp
    then have "(stop - start + step - 1) div step = (stop - (start + step) + step - 1) div step + 1"
      using 1(2) by (simp only: div_add_self2) 
    moreover have "0 \<le> (stop - (start + step) + step - 1) div step"
      using True 1(2) by (simp add: pos_imp_zdiv_nonneg_iff)
    moreover have "py_range start stop step = start # py_range (start + step) stop step"
      using True 1(2) by (subst py_range.simps) simp
    ultimately show ?thesis
      using 1 True by (simp add: nat_add_distrib)
  next
    case False
    then have lt: "stop - start + step - 1 < step" by simp
    have "(stop - start + step - 1) div step \<le> 0"
    proof (cases "stop - start + step - 1 < 0")
      case True
      then show ?thesis using 1(2) by (simp add: pos_imp_zdiv_neg_iff less_imp_le)
    next
      case False
      then show ?thesis using lt by (simp add: div_pos_pos_trivial)
    qed
    moreover have "py_range start stop step = []"
      using False by (subst py_range.simps) simp
    ultimately show ?thesis by simp
  qed
qed

lemma centers_length:
  "length (py_range 10 n 19) = (if n \<le> 10 then 0 else nat ((n - 11) div 19 + 1))"
proof -
  have len: "length (py_range 10 n 19) = nat ((n - 10 + 19 - 1) div 19)"
    by (rule py_range_length) simp
  have "n - 10 + 19 - 1 = (n - 11) + 19" by simp
  then have eq: "(n - 10 + 19 - 1) div 19 = (n - 11) div 19 + 1"
    by (simp only: div_add_self2)
  show ?thesis
  proof (cases "n \<le> 10")
    case True
    then have "(n - 11) div 19 < 0" by (simp add: pos_imp_zdiv_neg_iff)
    then show ?thesis using True len eq by simp
  next
    case False
    then show ?thesis using len eq by simp
  qed
qed

lemma py_range_nth:
  "0 < s \<Longrightarrow> k < length (py_range a n s) \<Longrightarrow> py_range a n s ! k = a + s * int k"
proof (induction a n s arbitrary: k rule: py_range.induct)
  case (1 start stop step)
  show ?case
  proof (cases "start < stop")
    case True
    then have eq: "py_range start stop step = start # py_range (start + step) stop step"
      using 1(2) by (subst py_range.simps) simp
    show ?thesis
    proof (cases k)
      case 0
      then show ?thesis by (simp add: eq)
    next
      case (Suc k')
      then have "k' < length (py_range (start + step) stop step)"
        using 1(3) eq by simp
      then have "py_range (start + step) stop step ! k' = start + step + step * int k'"
        using 1(1)[of k'] True 1(2) by simp
      then show ?thesis
        using Suc by (simp add: eq algebra_simps)
    qed
  next
    case False
    then have "py_range start stop step = []"
      by (subst py_range.simps) simp
    then show ?thesis using 1(3) by simp
  qed
qed

lemma py_range_unit: "py_range a b 1 = [a..b - 1]"
proof (induction a b "1::int" rule: py_range.induct)
  case (1 start stop)
  show ?case
  proof (cases "start < stop")
    case True
    then show ?thesis
      using 1 by (subst py_range.simps) (simp add: upto_rec1)
  next
    case False
    then show ?thesis
      by (subst py_range.simps) simp
  qed
qed

lemma py_range_bounds:
  "0 < s \<Longrightarrow> i \<in> set (py_range a n s) \<Longrightarrow> a \<le> i \<and> i < n"
proof (induction a n s rule: py_range.induct)
  case (1 start stop step)
  show ?case
  proof (cases "start < stop")
    case True
    then have eq: "py_range start stop step = start # py_range (start + step) stop step"
      using 1(2) by (subst py_range.simps) simp
    then show ?thesis using 1 True by auto
  next
    case False
    then have "py_range start stop step = []"
      by (subst py_range.simps) simp
    then show ?thesis using 1(3) by simp
  qed
qed

subsection \<open>The conversion never raises\<close>

lemma strptime_error: "strptime s chat_format = Inl e \<Longrightarrow> e = ValueError"
  by (auto simp: strptime_def datetime_new_def Let_def split: option.splits if_splits)

lemma format_eq:
  "strip (replace ''%A, %B %d, %Y at %I:%M:%S %p %Z'' ''%Z'' '''') = chat_format"
  by code_simp

lemma datetime_to_epoch_eq:
  "datetime_to_epoch s =
     Inr (if s = ''Unknown Date'' then None
          else case strptime (strip (replace s ''UTC'' '''')) chat_format of
                 Inr dt \<Rightarrow> Some (timestamp_utc dt)
               | Inl e \<Rightarrow> None)"
proof (cases "strptime (strip (replace s ''UTC'' '''')) chat_format")
  case (Inl e)
  then have "e = ValueError" by (rule strptime_error)
  then show ?thesis
    unfolding datetime_to_epoch_def Let_def format_eq using Inl by simp
next
  case (Inr dt)
  then show ?thesis
    unfolding datetime_to_epoch_def Let_def format_eq by simp
qed


lemma datetime_to_epoch_total: "datetime_to_epoch s = Inr (unix_time_of s)"
  by (simp only: unix_time_of_def datetime_to_epoch_eq sum.case)

subsection \<open>The documents of the two variants\<close>

lemma part_eq: "part m = spec_block m"
  by (simp add: part_def spec_block_def spec_name_def get_def empty_creator_def
      split: option.splits)

lemma index_ok: "0 \<le> i \<Longrightarrow> i < int (length xs) \<Longrightarrow> index xs i = Inr (xs ! nat i)"
  by (simp add: index_def)

lemma text_loop_ok:
  "\<forall>j\<in>set js. 0 \<le> j \<and> j < int (length messages) \<Longrightarrow>
   text_loop messages js acc = Inr (acc @ map (\<lambda>j. part (messages ! nat j)) js)"
  by (induction js arbitrary: acc) (simp_all add: index_ok bind_err_def)

lemma window_text_ok: "window_text messages i = Inr (spec_window messages i)"
proof -
  let ?lo = "max 0 (i - 10)" and ?hi = "min (int (length messages)) (i + 11)"
  have "\<forall>j\<in>set [?lo..?hi - 1]. 0 \<le> j \<and> j < int (length messages)"
    by auto
  then have "text_loop messages [?lo..?hi - 1] [] =
      Inr (map (\<lambda>j. part (messages ! nat j)) [?lo..?hi - 1])"
    using text_loop_ok[of "[?lo..?hi - 1]" messages "[]"] by simp
  moreover have "?hi - 1 = min (int (length messages) - 1) (i + 10)"
    by simp
  ultimately show ?thesis
    by (simp add: window_text_def py_range_unit bind_err_def spec_window_def part_eq)
qed

lemma space_document_ok:
  assumes "10 \<le> i" and "i < int (length messages)"
  shows "space_document messages nm i =
      Inr \<lparr>doc_metadata =
            \<lparr>md_source = ''chats'', md_type = ''space'', md_name = NameStr nm,
             md_message_id = get (message_id (messages ! nat (i - 10))) ''Unknown ID'',
             md_date = get (created_date (messages ! nat i)) ''Unknown Date'',
             md_unix_time =
               unix_time_of (get (created_date (messages ! nat i)) ''Unknown Date''),
             md_url = ''https://chat.google.com/room/''
                        @ get (message_id (messages ! nat (i - 10))) ''''\<rparr>,
           doc_text = spec_window messages i\<rparr>"
proof -
  have "index messages i = Inr (messages ! nat i)"
    using assms by (simp add: index_ok)
  moreover have "index messages (i - 10) = Inr (messages ! nat (i - 10))"
    using assms by (simp add: index_ok)
  ultimately show ?thesis
    by (simp add: space_document_def bind_err_def window_text_ok datetime_to_epoch_total)
qed

lemma dm_document_ok:
  assumes "10 \<le> i" and "i < int (length messages)"
  shows "dm_document messages names i =
      Inr \<lparr>doc_metadata =
            \<lparr>md_source = ''chats'', md_type = ''dm'', md_name = NameList names,
             md_message_id = get (message_id (messages ! nat (i - 10))) ''Unknown ID'',
             md_date = get (created_date (messages ! nat i)) ''Unknown Date'',
             md_unix_time =
               unix_time_of (get (created_date (messages ! nat i)) ''Unknown Date''),
             md_url = ''https://chat.google.com/dm/''
                        @ get (message_id (messages ! nat (i - 10))) ''''\<rparr>,
           doc_text = spec_window messages i\<rparr>"
proof -
  have "index messages i = Inr (messages ! nat i)"
    using assms by (simp add: index_ok)
  moreover have "index messages (i - 10) = Inr (messages ! nat (i - 10))"
    using assms by (simp add: index_ok)
  ultimately show ?thesis
    by (simp add: dm_document_def bind_err_def window_text_ok datetime_to_epoch_total)
qed

lemma centers_ok:
  "\<forall>i\<in>set (py_range 10 (int (length messages)) 19). 10 \<le> i \<and> i < int (length messages)"
  using py_range_bounds[of 19 _ 10 "int (length messages)"] by simp

lemma space_document_spec:
  "10 \<le> i \<Longrightarrow> i < int (length messages) \<Longrightarrow>
   space_document messages nm i =
     Inr (spec_document ''space'' (NameStr nm) ''https://chat.google.com/room/'' messages i)"
  by (simp add: space_document_ok spec_document_def get_def Let_def)

lemma dm_document_spec:
  "10 \<le> i \<Longrightarrow> i < int (length messages) \<Longrightarrow>
   dm_document messages names i =
     Inr (spec_document ''dm'' (NameList names) ''https://chat.google.com/dm/'' messages i)"
  by (simp add: dm_document_ok spec_document_def get_def Let_def)

lemma spaces_loop_spec:
  "\<forall>i\<in>set is. 10 \<le> i \<and> i < int (length messages) \<Longrightarrow>
   spaces_loop messages nm is acc =
     Inr (acc @ map (spec_document ''space'' (NameStr nm) ''https://chat.google.com/room/''
                       messages) is)"
  by (induction "is" arbitrary: acc) (simp_all add: space_document_spec bind_err_def)

lemma dms_loop_spec:
  "\<forall>i\<in>set is. 10 \<le> i \<and> i < int (length messages) \<Longrightarrow>
   dms_loop messages names is acc =
     Inr (acc @ map (spec_document ''dm'' (NameList names) ''https://chat.google.com/dm/''
                       messages) is)"
  by (induction "is" arbitrary: acc) (simp_all add: dm_document_spec bind_err_def)

lemma process_dms_spec:
  "process_dms messages =
     Inr (map (spec_document ''dm'' (NameList (names_loop messages []))
                 ''https://chat.google.com/dm/'' messages)
              (py_range 10 (int (length messages)) 19))"
  using dms_loop_spec[OF centers_ok, of messages "names_loop messages []" "[]"]
  by (simp add: process_dms_def)

lemma process_spaces_spec:
  "process_spaces messages membership_info =
     (case space_name_of messages membership_info of
        Inl e \<Rightarrow> Inl e
      | Inr nm \<Rightarrow>
          Inr (map (spec_document ''space'' (NameStr nm) ''https://chat.google.com/room/''
                      messages)
                   (py_range 10 (int (length messages)) 19)))"
  using spaces_loop_spec[OF centers_ok, of messages _ "[]"]
  by (simp add: process_spaces_def bind_err_def split: sum.splits)

lemma space_loop_total:
  "roster_ok membership_info \<Longrightarrow> \<exists>nm. space_loop membership_info p = Inr nm"
  by (induction membership_info) (auto simp: roster_ok_def split: field.splits)

lemma space_name_of_total:
  "roster_ok membership_info \<Longrightarrow> \<exists>nm. space_name_of messages membership_info = Inr nm"
  using space_loop_total[of membership_info]
  by (cases messages) (auto simp: space_name_of_def get_space_name_def index_def bind_err_def)

lemma center_iff:
  "k < length (py_range 10 n 19) \<longleftrightarrow> 10 + 19 * int k < n"
  unfolding centers_length by (cases "n \<le> 10") auto

lemma center_nth:
  "10 + 19 * int k < n \<Longrightarrow> py_range 10 n 19 ! k = 10 + 19 * int k"
  using py_range_nth[of 19 k 10 n] by (simp add: center_iff)

subsection \<open>Names and roster\<close>

lemma names_loop_first_seen:
  "names_loop ms acc = acc @ first_seen (filter (\<lambda>x. x \<notin> set acc) (map spec_name ms))"
proof (induction ms arbitrary: acc)
  case Nil
  then show ?case by simp
next
  case (Cons m ms)
  have nm: "get (name (get (creator m) empty_creator)) ''Unknown'' = spec_name m"
    by (simp add: get_def spec_name_def empty_creator_def split: option.splits)
  have rm: "removeAll x (filter P xs) = filter (\<lambda>y. P y \<and> y \<noteq> x) xs" for x :: string and P xs
    by (induction xs) auto
  show ?case
  proof (cases "spec_name m \<in> set acc")
    case True
    then show ?thesis using Cons.IH[of acc] nm by (simp add: Let_def)
  next
    case False
    have "(\<lambda>y. y \<notin> set acc \<and> y \<noteq> spec_name m) = (\<lambda>y. y \<notin> set (acc @ [spec_name m]))"
      by auto
    then show ?thesis using False Cons.IH[of "acc @ [spec_name m]"] nm by (simp add: rm Let_def)
  qed
qed

lemma first_seen_set: "set (first_seen xs) = set xs"
  by (induction xs rule: first_seen.induct) auto

lemma first_seen_distinct: "distinct (first_seen xs)"
  by (induction xs rule: first_seen.induct) (auto simp: first_seen_set)

lemma space_loop_first_named:
  "roster_ok membership_info \<Longrightarrow>
   space_loop membership_info p = Inr (first_named_match_wins membership_info p)"
proof (induction membership_info)
  case Nil
  then show ?case by (simp add: first_named_match_wins_def)
next
  case (Cons item items)
  then have "roster_ok items" and "group_id item \<noteq> None"
    by (simp_all add: roster_ok_def)
  then show ?case
    using Cons.IH
    by (cases "group_name item")
       (auto simp: first_named_match_wins_def entry_matches_def has_name_def name_or_unknown_def)
qed

subsection \<open>The documents by position\<close>

lemma centers_length_nat:
  "length (py_range 10 (int n) 19) = (if n \<le> 10 then 0 else (n - 11) div 19 + 1)"
proof (cases "n \<le> 10")
  case True
  then show ?thesis by (simp add: centers_length)
next
  case False
  then have "int ((n - 11) div 19) = (int n - 11) div 19"
    by (simp add: zdiv_int of_nat_diff)
  moreover have "0 \<le> (int n - 11) div 19"
    using False by (simp add: pos_imp_zdiv_nonneg_iff)
  ultimately have "nat ((int n - 11) div 19 + 1) = (n - 11) div 19 + 1"
    by linarith
  then show ?thesis using False by (simp add: centers_length)
qed

lemma center_nth_less:
  assumes "k < length (py_range 10 n 19)"
  shows "py_range 10 n 19 ! k = 10 + 19 * int k"
proof -
  have "10 + 19 * int k < n"
    using assms by (simp only: center_iff)
  then show ?thesis
    by (rule center_nth)
qed

lemma process_spaces_Inr:
  assumes "process_spaces messages membership_info = Inr docs"
  shows "\<exists>nm. space_name_of messages membership_info = Inr nm
     \<and> docs = map (spec_document ''space'' (NameStr nm) ''https://chat.google.com/room/''
                     messages)
                  (py_range 10 (int (length messages)) 19)"
proof (cases "space_name_of messages membership_info")
  case (Inl e)
  then show ?thesis using assms by (simp add: process_spaces_spec)
next
  case (Inr nm)
  then show ?thesis using assms by (simp add: process_spaces_spec)
qed

lemma process_spaces_total:
  assumes "roster_ok membership_info"
  shows "\<exists>docs. process_spaces messages membership_info = Inr docs"
proof -
  obtain nm where "space_name_of messages membership_info = Inr nm"
    using space_name_of_total[OF assms] by blast
  then show ?thesis by (simp add: process_spaces_spec)
qed




lemma length_demo: "length demo_messages = 30"
  by (simp add: demo_messages_def)

lemma roster_ok_demo: "roster_ok demo_roster"
  by (simp add: roster_ok_def demo_roster_def)

lemma demo_nth:
  "demo_messages ! 0 = ann_message" "demo_messages ! 10 = bob_message"
  "demo_messages ! 19 = plain_message" "demo_messages ! 29 = eve_message"
  by (simp_all add: demo_messages_def nth_append nth_Cons')

lemma dm_docs:
  "\<exists>docs. process_dms messages = Inr docs
     \<and> length docs = length (py_range 10 (int (length messages)) 19)
     \<and> (\<forall>k<length docs. docs ! k =
          spec_document ''dm'' (NameList (names_loop messages []))
            ''https://chat.google.com/dm/'' messages (10 + 19 * int k))"
  by (simp add: process_dms_spec center_nth_less)

lemma space_docs:
  assumes "process_spaces messages membership_info = Inr docs"
  shows "\<exists>nm. space_name_of messages membership_info = Inr nm
     \<and> length docs = length (py_range 10 (int (length messages)) 19)
     \<and> (\<forall>k<length docs. docs ! k =
          spec_document ''space'' (NameStr nm)
            ''https://chat.google.com/room/'' messages (10 + 19 * int k))"
proof -
  obtain nm where nm: "space_name_of messages membership_info = Inr nm"
    and docs: "docs = map (spec_document ''space'' (NameStr nm) ''https://chat.google.com/room/''
                     messages) (py_range 10 (int (length messages)) 19)"
    using process_spaces_Inr[OF assms] by blast
  show ?thesis
    using nm by (simp add: docs center_nth_less)
qed

lemma spec_document_fields:
  "doc_text (spec_document t nm url messages i) = spec_window messages i"
  "md_source (doc_metadata (spec_document t nm url messages i)) = ''chats''"
  "md_type (doc_metadata (spec_document t nm url messages i)) = t"
  "md_name (doc_metadata (spec_document t nm url messages i)) = nm"
  "md_message_id (doc_metadata (spec_document t nm url messages i)) =
     (case message_id (messages ! nat (i - 10)) of None \<Rightarrow> ''Unknown ID'' | Some x \<Rightarrow> x)"
  "md_date (doc_metadata (spec_document t nm url messages i)) =
     (case created_date (messages ! nat i) of None \<Rightarrow> ''Unknown Date'' | Some d \<Rightarrow> d)"
  "md_unix_time (doc_metadata (spec_document t nm url messages i)) =
     unix_time_of
       (case created_date (messages ! nat i) of None \<Rightarrow> ''Unknown Date'' | Some d \<Rightarrow> d)"
  "datetime_to_epoch
     (case created_date (messages ! nat i) of None \<Rightarrow> ''Unknown Date'' | Some d \<Rightarrow> d) =
     Inr (md_unix_time (doc_metadata (spec_document t nm url messages i)))"
  "md_url (doc_metadata (spec_document t nm url messages i)) =
     url @ (case message_id (messages ! nat (i - 10)) of None \<Rightarrow> '''' | Some x \<Rightarrow> x)"
  by (simp_all add: spec_document_def Let_def datetime_to_epoch_total)

lemma center_nat:
  "nat (10 + 19 * int k) = 10 + 19 * k" "nat (10 + 19 * int k - 10) = 19 * k"
  "nat (19 * int k) = 19 * k"
  by (simp_all add: nat_add_distrib nat_mult_distrib)

lemma center_iff_nat:
  "k < length (py_range 10 (int n) 19) \<longleftrightarrow> 10 + 19 * k < n"
  by (simp only: center_iff) linarith

subsection \<open>A date that parses ends in AM or PM\<close>

lemma ends_in_refl: "ends_in s s"
  by (simp add: ends_in_def)

lemma ends_in_trans: "ends_in s r \<Longrightarrow> ends_in r t \<Longrightarrow> ends_in s t"
  by (auto simp: ends_in_def)

lemma ends_in_Cons: "ends_in cs r \<Longrightarrow> ends_in (c # cs) r"
  by (metis append_Cons ends_in_def)

lemma re_lit_ends: "re_lit p s = Some r \<Longrightarrow> ends_in s r"
  by (induction p s rule: re_lit.induct) (auto simp: ends_in_refl ends_in_Cons split: if_splits)

lemma re_seq_ends: "re_seq ns s = Some (g, r) \<Longrightarrow> ends_in s r"
  by (induction ns) (auto simp: re_lit_ends split: option.splits)

lemma re_ws_ends: "re_ws s = Some r \<Longrightarrow> ends_in s r"
proof -
  assume a: "re_ws s = Some r"
  then obtain c cs where s: "s = c # cs" and r: "r = dropWhile is_space cs"
    by (auto simp: re_ws_def split: list.splits if_splits)
  have "cs = takeWhile is_space cs @ dropWhile is_space cs" by simp
  then have "s = (c # takeWhile is_space cs) @ r"
    using s r by simp
  then show ?thesis unfolding ends_in_def by blast
qed

lemma cls1_ends: "cls1 P s = Some (g, r) \<Longrightarrow> ends_in s r"
  by (auto simp: cls1_def ends_in_def split: list.splits if_splits)

lemma cls2_ends: "cls2 P Q s = Some (g, r) \<Longrightarrow> ends_in s r"
  by (auto simp: cls2_def ends_in_def split: list.splits if_splits)

lemma alt_ends:
  assumes "\<And>g r. p s = Some (g, r) \<Longrightarrow> ends_in s r"
    and "\<And>g r. q s = Some (g, r) \<Longrightarrow> ends_in s r"
    and "alt p q s = Some (g, r)"
  shows "ends_in s r"
  using assms by (auto simp: alt_def split: option.splits)

lemma re_d_ends: "re_d s = Some (g, r) \<Longrightarrow> ends_in s r"
  unfolding re_d_def
  by (erule alt_ends[rotated 2] | erule cls2_ends | erule cls1_ends)+

lemma re_I_ends: "re_I s = Some (g, r) \<Longrightarrow> ends_in s r"
  unfolding re_I_def
  by (erule alt_ends[rotated 2] | erule cls2_ends | erule cls1_ends)+

lemma re_M_ends: "re_M s = Some (g, r) \<Longrightarrow> ends_in s r"
  unfolding re_M_def
  by (erule alt_ends[rotated 2] | erule cls2_ends | erule cls1_ends)+

lemma re_S_ends: "re_S s = Some (g, r) \<Longrightarrow> ends_in s r"
  unfolding re_S_def
  by (erule alt_ends[rotated 2] | erule cls2_ends | erule cls1_ends)+

lemma re_Y_ends: "re_Y s = Some (g, r) \<Longrightarrow> ends_in s r"
  by (auto simp: re_Y_def ends_in_def split: list.splits if_splits)

lemma format_regex_match_last_step:
  assumes "format_regex_match s = Some (g, r)"
  shows "\<exists>t gp. ends_in s t \<and> re_seq am_pm t = Some (gp, r)"
proof -
  from assms obtain gA s1 s2 s3 gB s4 s5 gd s6 s7 s8 gY s9 s10 s11 s12 gI s13 s14 gM s15 s16
      gS s17 s18 gp where steps:
    "re_seq re_A_names s = Some (gA, s1)" "re_lit '','' s1 = Some s2" "re_ws s2 = Some s3"
    "re_seq re_B_names s3 = Some (gB, s4)" "re_ws s4 = Some s5"
    "re_d s5 = Some (gd, s6)" "re_lit '','' s6 = Some s7" "re_ws s7 = Some s8"
    "re_Y s8 = Some (gY, s9)" "re_ws s9 = Some s10" "re_lit ''at'' s10 = Some s11"
    "re_ws s11 = Some s12" "re_I s12 = Some (gI, s13)" "re_lit '':'' s13 = Some s14"
    "re_M s14 = Some (gM, s15)" "re_lit '':'' s15 = Some s16" "re_S s16 = Some (gS, s17)"
    "re_ws s17 = Some s18" "re_seq am_pm s18 = Some (gp, r)"
    unfolding format_regex_match_def
    by (auto simp: bind_eq_Some_conv)
  have "ends_in s s18"
    by (intro ends_in_trans[OF re_seq_ends[OF steps(1)]] ends_in_trans[OF re_lit_ends[OF steps(2)]]
        ends_in_trans[OF re_ws_ends[OF steps(3)]] ends_in_trans[OF re_seq_ends[OF steps(4)]]
        ends_in_trans[OF re_ws_ends[OF steps(5)]] ends_in_trans[OF re_d_ends[OF steps(6)]]
        ends_in_trans[OF re_lit_ends[OF steps(7)]] ends_in_trans[OF re_ws_ends[OF steps(8)]]
        ends_in_trans[OF re_Y_ends[OF steps(9)]] ends_in_trans[OF re_ws_ends[OF steps(10)]]
        ends_in_trans[OF re_lit_ends[OF steps(11)]] ends_in_trans[OF re_ws_ends[OF steps(12)]]
        ends_in_trans[OF re_I_ends[OF steps(13)]] ends_in_trans[OF re_lit_ends[OF steps(14)]]
        ends_in_trans[OF re_M_ends[OF steps(15)]] ends_in_trans[OF re_lit_ends[OF steps(16)]]
        ends_in_trans[OF re_S_ends[OF steps(17)]] re_ws_ends[OF steps(18)])
  then show ?thesis using steps(19) by blast
qed

lemma lower_m: "ascii_lower (CHR ''m'') = CHR ''m''"
  by code_simp

lemma am_pm_whole:
  assumes "re_seq am_pm t = Some (gp, [])"
  shows "\<exists>a b. t = [a, b] \<and> ascii_lower b = CHR ''m''"
proof -
  have lit: "\<exists>a b. t = [a, b] \<and> ascii_lower b = CHR ''m''"
    if "re_lit [x, CHR ''m''] t = Some []" for x
  proof (cases t)
    case Nil
    then show ?thesis using that by simp
  next
    case t: (Cons a t')
    show ?thesis
    proof (cases t')
      case Nil
      then show ?thesis using that t by (simp split: if_splits)
    next
      case (Cons b t'')
      then show ?thesis using that t by (simp add: lower_m split: if_splits)
    qed
  qed
  show ?thesis
    using assms lit[of "CHR ''a''"] lit[of "CHR ''p''"]
    by (auto simp: am_pm_def split: option.splits)
qed

lemma strptime_last:
  assumes "strptime s chat_format = Inr dt"
  shows "s \<noteq> [] \<and> ascii_lower (last s) = CHR ''m''"
proof -
  obtain g where "format_regex_match s = Some (g, [])"
    using assms by (auto simp: strptime_def split: option.splits if_splits)
  then obtain t gp where t: "ends_in s t" "re_seq am_pm t = Some (gp, [])"
    using format_regex_match_last_step by blast
  then obtain a b where "t = [a, b]" "ascii_lower b = CHR ''m''"
    using am_pm_whole by blast
  then show ?thesis
    using t(1) by (auto simp: ends_in_def)
qed

subsection \<open>Deleting the token\<close>

lemma starts_with_UTC:
  "starts_with s ''UTC'' \<longleftrightarrow> (\<exists>r. s = ''UTC'' @ r)"
  by (cases s; cases "tl s"; cases "tl (tl s)") auto

lemma replace_UTC_step:
  "replace (''UTC'' @ r) ''UTC'' '''' = replace r ''UTC'' ''''"
  by simp

lemma replace_other_step:
  assumes "\<not> starts_with (c # cs) old"
  shows "replace (c # cs) old new = c # replace cs old new"
  using assms by (simp only: replace.simps simp_thms if_False)

lemma replace_snoc:
  assumes "c \<noteq> CHR ''C''"
  shows "\<exists>x. replace (s @ [c]) ''UTC'' '''' = x @ [c]"
proof (induction "length s" arbitrary: s rule: less_induct)
  case less
  show ?case
  proof (cases s)
    case Nil
    then show ?thesis by simp
  next
    case (Cons a s')
    show ?thesis
    proof (cases "starts_with (s @ [c]) ''UTC''")
      case True
      then obtain r where r: "s @ [c] = ''UTC'' @ r"
        using starts_with_UTC by blast
      then have "r \<noteq> []"
        using assms by (cases s; cases "tl s"; cases "tl (tl s)") auto
      then obtain r' where r': "r = r' @ [c]" "s = ''UTC'' @ r'"
        using r by (metis append_assoc append_butlast_last_id last_appendR last_snoc butlast_append butlast_snoc)
      then have "length r' < length s" by simp
      then obtain x where "replace (r' @ [c]) ''UTC'' '''' = x @ [c]"
        using less by blast
      then show ?thesis
        using r r' by (simp only: replace_UTC_step) blast
    next
      case False
      have "length s' < length s" using Cons by simp
      then obtain x where "replace (s' @ [c]) ''UTC'' '''' = x @ [c]"
        using less by blast
      then have "replace (s @ [c]) ''UTC'' '''' = (a # x) @ [c]"
        using False Cons by (simp del: replace.simps add: replace_other_step)
      then show ?thesis by blast
    qed
  qed
qed

lemma strip_snoc:
  assumes "\<not> is_space c"
  shows "\<exists>y. strip (x @ [c]) = y @ [c]"
proof -
  have "\<exists>z. dropWhile is_space (x @ [c]) = z @ [c]"
    using assms by (induction x) auto
  then obtain z where z: "dropWhile is_space (x @ [c]) = z @ [c]" by blast
  then have "strip (x @ [c]) = z @ [c]"
    using assms by (simp add: strip_def)
  then show ?thesis by blast
qed

lemma lower_m_iff: "ascii_lower c = CHR ''m'' \<longleftrightarrow> c = CHR ''m'' \<or> c = CHR ''M''"
  by (auto simp: ascii_lower_def split: if_splits)

lemma other_token_fails:
  assumes "c \<noteq> CHR ''C''" and "c \<noteq> CHR ''M''" and "c \<noteq> CHR ''m''" and "\<not> is_space c"
  shows "datetime_to_epoch (s @ [c]) = Inr None"
proof -
  obtain x where "replace (s @ [c]) ''UTC'' '''' = x @ [c]"
    using replace_snoc[OF assms(1)] by blast
  moreover obtain y where "strip (x @ [c]) = y @ [c]"
    using strip_snoc[OF assms(4)] by blast
  ultimately have e: "strip (replace (s @ [c]) ''UTC'' '''') = y @ [c]"
    by simp
  have "strptime (y @ [c]) chat_format \<noteq> Inr dt" for dt
    using strptime_last[of "y @ [c]" dt] assms(2,3) by (auto simp: lower_m_iff)
  then show ?thesis
    by (simp add: datetime_to_epoch_eq e split: sum.splits)
qed

lemma null_only:
  "datetime_to_epoch s = Inr None \<longleftrightarrow>
     s = ''Unknown Date'' \<or> strptime (strip (replace s ''UTC'' '''')) chat_format = Inl ValueError"
  using strptime_error[of "strip (replace s ''UTC'' '''')"]
  by (auto simp: datetime_to_epoch_eq split: sum.splits)

subsection \<open>Parsing a date of the export\<close>

lemma below_10: "(k::nat) < 10 \<Longrightarrow> k \<in> {0, 1, 2, 3, 4, 5, 6, 7, 8, 9}"
  by auto

lemma digit_char_facts:
  assumes "k < 10"
  shows "is_digit (digit_char k)" and "\<not> is_space (digit_char k)"
    and "digit_val (digit_char k) = int k" and "digit_char k \<noteq> CHR ''U''"
    and "digit_char k \<noteq> CHR '',''" and "digit_char k \<noteq> CHR '':''"
  using below_10[OF assms]
  by (auto simp: digit_char_def is_digit_def is_space_def digit_val_def)

lemma digit_char_classes:
  "k < 6 \<Longrightarrow> one_of ''012345'' (digit_char k)"
  "k < 6 \<Longrightarrow> \<not> one_of ''6'' (digit_char k)"
  "1 \<le> k \<Longrightarrow> k < 10 \<Longrightarrow> one_of ''123456789'' (digit_char k)"
  "1 \<le> k \<Longrightarrow> k < 10 \<Longrightarrow> \<not> one_of ''0'' (digit_char k)"
proof -
  show "k < 6 \<Longrightarrow> one_of ''012345'' (digit_char k)"
    using below_10[of k] by (auto simp: digit_char_def one_of_def)
  show "k < 6 \<Longrightarrow> \<not> one_of ''6'' (digit_char k)"
    using below_10[of k] by (auto simp: digit_char_def one_of_def)
  show "1 \<le> k \<Longrightarrow> k < 10 \<Longrightarrow> one_of ''123456789'' (digit_char k)"
    using below_10[of k] by (auto simp: digit_char_def one_of_def)
  show "1 \<le> k \<Longrightarrow> k < 10 \<Longrightarrow> \<not> one_of ''0'' (digit_char k)"
    using below_10[of k] by (auto simp: digit_char_def one_of_def)
qed

lemma strip_digits:
  "\<not> is_space a \<Longrightarrow> \<not> is_space b \<Longrightarrow> strip (a # xs @ [b]) = a # xs @ [b]"
  by (simp add: strip_def)

lemma strip_single: "\<not> is_space a \<Longrightarrow> strip [a] = [a]"
  by (simp add: strip_def)

lemma py_int_two:
  assumes "n < 100"
  shows "py_int (two_digits n) = int n"
proof -
  have d: "n div 10 < 10" "n mod 10 < 10" using assms by auto
  have "strip (two_digits n) = two_digits n"
    using strip_digits[of "digit_char (n div 10)" "digit_char (n mod 10)" "[]"]
      digit_char_facts(2)[OF d(1)] digit_char_facts(2)[OF d(2)]
    by (simp add: two_digits_def)
  then have "py_int (two_digits n) = 10 * int (n div 10) + int (n mod 10)"
    by (simp add: py_int_def two_digits_def digit_char_facts(3)[OF d(1)]
        digit_char_facts(3)[OF d(2)])
  then show ?thesis by presburger
qed

lemma py_int_four:
  assumes "n < 10000"
  shows "py_int (four_digits n) = int n"
proof -
  have d: "n div 1000 < 10" "n div 100 mod 10 < 10" "n div 10 mod 10 < 10" "n mod 10 < 10"
    using assms by auto
  have "strip (four_digits n) = four_digits n"
    using strip_digits[of "digit_char (n div 1000)" "digit_char (n mod 10)"
        "[digit_char (n div 100 mod 10), digit_char (n div 10 mod 10)]"]
      digit_char_facts(2)[OF d(1)] digit_char_facts(2)[OF d(4)]
    by (simp add: four_digits_def)
  then have "py_int (four_digits n) =
      10 * (10 * (10 * int (n div 1000) + int (n div 100 mod 10)) + int (n div 10 mod 10))
        + int (n mod 10)"
    by (simp add: py_int_def four_digits_def digit_char_facts(3)[OF d(1)]
        digit_char_facts(3)[OF d(2)] digit_char_facts(3)[OF d(3)] digit_char_facts(3)[OF d(4)])
  also have "\<dots> = int (1000 * (n div 1000) + 100 * (n div 100 mod 10)
      + 10 * (n div 10 mod 10) + n mod 10)"
    by simp
  also have "1000 * (n div 1000) + 100 * (n div 100 mod 10)
      + 10 * (n div 10 mod 10) + n mod 10 = n"
  proof -
    have a: "n mod 100 = 10 * (n div 10 mod 10) + n mod 10"
      using mod_mult2_eq[of n 10 10] by simp
    have b: "n mod 1000 = 100 * (n div 100 mod 10) + n mod 100"
      using mod_mult2_eq[of n 100 10] by simp
    have "n = 1000 * (n div 1000) + n mod 1000"
      by simp
    then show ?thesis using a b by linarith
  qed
  finally show ?thesis .
qed

lemma py_int_day:
  assumes "d < 100"
  shows "py_int (day_digits d) = int d"
proof (cases "d < 10")
  case True
  then show ?thesis
    using digit_char_facts(2,3)[OF True]
    by (simp add: day_digits_def py_int_def strip_single)
next
  case False
  then show ?thesis using py_int_two[OF assms] by (simp add: day_digits_def)
qed

lemma lower_facts:
  "ascii_lower (CHR ''A'') = CHR ''a''"
  "ascii_lower (CHR ''B'') = CHR ''b''"
  "ascii_lower (CHR ''C'') = CHR ''c''"
  "ascii_lower (CHR ''D'') = CHR ''d''"
  "ascii_lower (CHR ''E'') = CHR ''e''"
  "ascii_lower (CHR ''F'') = CHR ''f''"
  "ascii_lower (CHR ''G'') = CHR ''g''"
  "ascii_lower (CHR ''H'') = CHR ''h''"
  "ascii_lower (CHR ''I'') = CHR ''i''"
  "ascii_lower (CHR ''J'') = CHR ''j''"
  "ascii_lower (CHR ''K'') = CHR ''k''"
  "ascii_lower (CHR ''L'') = CHR ''l''"
  "ascii_lower (CHR ''M'') = CHR ''m''"
  "ascii_lower (CHR ''N'') = CHR ''n''"
  "ascii_lower (CHR ''O'') = CHR ''o''"
  "ascii_lower (CHR ''P'') = CHR ''p''"
  "ascii_lower (CHR ''Q'') = CHR ''q''"
  "ascii_lower (CHR ''R'') = CHR ''r''"
  "ascii_lower (CHR ''S'') = CHR ''s''"
  "ascii_lower (CHR ''T'') = CHR ''t''"
  "ascii_lower (CHR ''U'') = CHR ''u''"
  "ascii_lower (CHR ''V'') = CHR ''v''"
  "ascii_lower (CHR ''W'') = CHR ''w''"
  "ascii_lower (CHR ''X'') = CHR ''x''"
  "ascii_lower (CHR ''Y'') = CHR ''y''"
  "ascii_lower (CHR ''Z'') = CHR ''z''"
  "ascii_lower (CHR ''a'') = CHR ''a''"
  "ascii_lower (CHR ''b'') = CHR ''b''"
  "ascii_lower (CHR ''c'') = CHR ''c''"
  "ascii_lower (CHR ''d'') = CHR ''d''"
  "ascii_lower (CHR ''e'') = CHR ''e''"
  "ascii_lower (CHR ''f'') = CHR ''f''"
  "ascii_lower (CHR ''g'') = CHR ''g''"
  "ascii_lower (CHR ''h'') = CHR ''h''"
  "ascii_lower (CHR ''i'') = CHR ''i''"
  "ascii_lower (CHR ''j'') = CHR ''j''"
  "ascii_lower (CHR ''k'') = CHR ''k''"
  "ascii_lower (CHR ''l'') = CHR ''l''"
  "ascii_lower (CHR ''m'') = CHR ''m''"
  "ascii_lower (CHR ''n'') = CHR ''n''"
  "ascii_lower (CHR ''o'') = CHR ''o''"
  "ascii_lower (CHR ''p'') = CHR ''p''"
  "ascii_lower (CHR ''q'') = CHR ''q''"
  "ascii_lower (CHR ''r'') = CHR ''r''"
  "ascii_lower (CHR ''s'') = CHR ''s''"
  "ascii_lower (CHR ''t'') = CHR ''t''"
  "ascii_lower (CHR ''u'') = CHR ''u''"
  "ascii_lower (CHR ''v'') = CHR ''v''"
  "ascii_lower (CHR ''w'') = CHR ''w''"
  "ascii_lower (CHR ''x'') = CHR ''x''"
  "ascii_lower (CHR ''y'') = CHR ''y''"
  "ascii_lower (CHR ''z'') = CHR ''z''"
  by code_simp+

lemma below_7: "(k::nat) < 7 \<Longrightarrow> k \<in> set [0, 1, 2, 3, 4, 5, 6]"
  by (simp add: numeral_eq_Suc less_Suc_eq)

lemma weekday_all:
  "\<forall>wd\<in>set [0, 1, 2, 3, 4, 5, 6].
     re_seq re_A_names (weekday_names ! wd @ r) = Some (weekday_names ! wd, r)
     \<and> weekday_names ! wd \<noteq> [] \<and> \<not> is_space (hd (weekday_names ! wd))
     \<and> CHR ''U'' \<notin> set (weekday_names ! wd)"
  by (simp add: weekday_names_def re_A_names_def is_space_def lower_facts)

lemma month_cases: "1 \<le> (k::nat) \<Longrightarrow> k \<le> 12 \<Longrightarrow> k \<in> set [1, 2, 3, 4, 5, 6, 7, 8, 9, 10, 11, 12]"
  by (simp add: numeral_eq_Suc le_Suc_eq)

lemma month_all:
  "\<forall>mo\<in>set [1, 2, 3, 4, 5, 6, 7, 8, 9, 10, 11, 12].
     re_seq re_B_names (month_names ! (mo - 1) @ r) = Some (month_names ! (mo - 1), r)
     \<and> list_index f_month (map ascii_lower (month_names ! (mo - 1))) = int mo
     \<and> month_names ! (mo - 1) \<noteq> [] \<and> \<not> is_space (hd (month_names ! (mo - 1)))
     \<and> CHR ''U'' \<notin> set (month_names ! (mo - 1))"
  by (simp add: month_names_def re_B_names_def f_month_def is_space_def lower_facts)

lemma day_cases: "1 \<le> (k::nat) \<Longrightarrow> k \<le> 31 \<Longrightarrow> k \<in> set [1, 2, 3, 4, 5, 6, 7, 8, 9, 10, 11, 12, 13, 14, 15, 16, 17, 18, 19, 20, 21, 22, 23, 24, 25, 26, 27, 28, 29, 30, 31]"
  by (simp add: numeral_eq_Suc le_Suc_eq)

lemma day_all:
  "\<forall>d\<in>set [1, 2, 3, 4, 5, 6, 7, 8, 9, 10, 11, 12, 13, 14, 15, 16, 17, 18, 19, 20, 21, 22, 23, 24, 25, 26, 27, 28, 29, 30, 31].
     re_d (day_digits d @ CHR '','' # r) = Some (day_digits d, CHR '','' # r)
     \<and> day_digits d \<noteq> [] \<and> \<not> is_space (hd (day_digits d))
     \<and> CHR ''U'' \<notin> set (day_digits d)"
  by (simp add: day_digits_def two_digits_def digit_char_def re_d_def alt_def cls1_def cls2_def
      one_of_def is_digit_def is_space_def)

lemma hour_all:
  "\<forall>h\<in>set [1, 2, 3, 4, 5, 6, 7, 8, 9, 10, 11, 12].
     re_I (two_digits h @ CHR '':'' # r) = Some (two_digits h, CHR '':'' # r)"
  by (simp add: two_digits_def digit_char_def re_I_def alt_def cls1_def cls2_def
      one_of_def is_digit_def)

lemma two_digits_facts:
  assumes "n < 100"
  shows "two_digits n \<noteq> []" and "\<not> is_space (hd (two_digits n))"
    and "CHR ''U'' \<notin> set (two_digits n)"
proof -
  have d: "n div 10 < 10" "n mod 10 < 10" using assms by auto
  show "two_digits n \<noteq> []" by (simp add: two_digits_def)
  show "\<not> is_space (hd (two_digits n))"
    using digit_char_facts(2)[OF d(1)] by (simp add: two_digits_def)
  show "CHR ''U'' \<notin> set (two_digits n)"
    using digit_char_facts(4)[OF d(1)] digit_char_facts(4)[OF d(2)]
    by (auto simp: two_digits_def)
qed

lemma four_digits_facts:
  assumes "n < 10000"
  shows "re_Y (four_digits n @ r) = Some (four_digits n, r)"
    and "four_digits n \<noteq> []" and "\<not> is_space (hd (four_digits n))"
    and "CHR ''U'' \<notin> set (four_digits n)"
proof -
  have d: "n div 1000 < 10" "n div 100 mod 10 < 10" "n div 10 mod 10 < 10" "n mod 10 < 10"
    using assms by auto
  show "re_Y (four_digits n @ r) = Some (four_digits n, r)"
    using digit_char_facts(1)[OF d(1)] digit_char_facts(1)[OF d(2)]
      digit_char_facts(1)[OF d(3)] digit_char_facts(1)[OF d(4)]
    by (simp add: four_digits_def re_Y_def)
  show "four_digits n \<noteq> []" by (simp add: four_digits_def)
  show "\<not> is_space (hd (four_digits n))"
    using digit_char_facts(2)[OF d(1)] by (simp add: four_digits_def)
  show "CHR ''U'' \<notin> set (four_digits n)"
    using digit_char_facts(4)[OF d(1)] digit_char_facts(4)[OF d(2)]
      digit_char_facts(4)[OF d(3)] digit_char_facts(4)[OF d(4)]
    by (auto simp: four_digits_def)
qed

lemma minute_piece:
  assumes "n < 60"
  shows "re_M (two_digits n @ r) = Some (two_digits n, r)"
proof -
  have d: "n div 10 < 6" "n mod 10 < 10" using assms by auto
  show ?thesis
    using digit_char_classes(1)[OF d(1)] digit_char_facts(1)[OF d(2)]
    by (simp add: two_digits_def re_M_def alt_def cls2_def)
qed

lemma second_piece:
  assumes "n < 60"
  shows "re_S (two_digits n @ r) = Some (two_digits n, r)"
proof -
  have d: "n div 10 < 6" "n mod 10 < 10" using assms by auto
  show ?thesis
    using digit_char_classes(1)[OF d(1)] digit_char_classes(2)[OF d(1)]
      digit_char_facts(1)[OF d(2)]
    by (simp add: two_digits_def re_S_def alt_def cls2_def)
qed

lemma am_or_pm_facts:
  "re_seq am_pm (am_or_pm pm) = Some (am_or_pm pm, [])"
  "map ascii_lower (am_or_pm pm) = am_pm ! (if pm then 1 else 0)"
  "am_or_pm pm \<noteq> []" "\<not> is_space (hd (am_or_pm pm))" "\<not> is_space (last (am_or_pm pm))"
  "CHR ''U'' \<notin> set (am_or_pm pm)"
  by (simp_all add: am_or_pm_def am_pm_def lower_facts is_space_def)

lemma hour_of_12:
  assumes "1 \<le> h" and "h \<le> 12"
  shows "hour_of (int h) (am_pm ! (if pm then 1 else 0)) = int (h mod 12 + (if pm then 12 else 0))"
proof (cases "h = 12")
  case True
  then show ?thesis by (simp add: hour_of_def am_pm_def)
next
  case False
  then have "h mod 12 = h" using assms by simp
  then show ?thesis using False by (simp add: hour_of_def am_pm_def)
qed

lemma re_ws_piece:
  assumes "x \<noteq> []" and "\<not> is_space (hd x)"
  shows "re_ws (CHR '' '' # x @ r) = Some (x @ r)"
proof -
  obtain c cs where "x = c # cs" using assms(1) by (cases x) auto
  then show ?thesis using assms(2) by (simp add: re_ws_def is_space_def)
qed

lemma re_ws_at: "re_ws (CHR '' '' # CHR ''a'' # r) = Some (CHR ''a'' # r)"
  by (simp add: re_ws_def is_space_def)

lemma re_lit_pieces:
  "re_lit '','' (CHR '','' # r) = Some r"
  "re_lit '':'' (CHR '':'' # r) = Some r"
  "re_lit ''at'' (CHR ''a'' # CHR ''t'' # r) = Some r"
  by simp_all

lemma render_parses:
  assumes "wd < 7" and "1 \<le> mo" and "mo \<le> 12" and "1 \<le> d" and "d \<le> 31"
    and "y < 10000" and "1 \<le> h" and "h \<le> 12" and "mi < 60" and "s < 60"
  shows "format_regex_match (render_date wd mo d y h mi s pm) =
      Some (\<lparr>g_A = weekday_names ! wd, g_B = month_names ! (mo - 1), g_d = day_digits d,
              g_Y = four_digits y, g_I = two_digits h, g_M = two_digits mi,
              g_S = two_digits s, g_p = am_or_pm pm\<rparr>, [])"
proof -
  define r18 where "r18 = am_or_pm pm"
  define r17 where "r17 = CHR '' '' # r18"
  define r16 where "r16 = two_digits s @ r17"
  define r15 where "r15 = CHR '':'' # r16"
  define r14 where "r14 = two_digits mi @ r15"
  define r13 where "r13 = CHR '':'' # r14"
  define r12 where "r12 = two_digits h @ r13"
  define r11 where "r11 = CHR '' '' # r12"
  define r10 where "r10 = CHR ''a'' # CHR ''t'' # r11"
  define r9 where "r9 = CHR '' '' # r10"
  define r8 where "r8 = four_digits y @ r9"
  define r7 where "r7 = CHR '' '' # r8"
  define r6 where "r6 = CHR '','' # r7"
  define r5 where "r5 = day_digits d @ r6"
  define r4 where "r4 = CHR '' '' # r5"
  define r3 where "r3 = month_names ! (mo - 1) @ r4"
  define r2 where "r2 = CHR '' '' # r3"
  define r1 where "r1 = CHR '','' # r2"
  define r0 where "r0 = weekday_names ! wd @ r1"
  have wd: "wd \<in> set [0, 1, 2, 3, 4, 5, 6]"
    using assms(1) by (rule below_7)
  have mo: "mo \<in> set [1, 2, 3, 4, 5, 6, 7, 8, 9, 10, 11, 12]"
    using assms(2,3) by (rule month_cases)
  have d: "d \<in> set [1, 2, 3, 4, 5, 6, 7, 8, 9, 10, 11, 12, 13, 14, 15, 16, 17, 18, 19, 20,
      21, 22, 23, 24, 25, 26, 27, 28, 29, 30, 31]"
    using assms(4,5) by (rule day_cases)
  have h: "h \<in> set [1, 2, 3, 4, 5, 6, 7, 8, 9, 10, 11, 12]"
    using assms(7,8) by (rule month_cases)
  have h100: "h < 100" using assms(8) by simp
  have st1: "re_seq re_A_names r0 = Some (weekday_names ! wd, r1)"
    unfolding r0_def using weekday_all[of r1] wd by blast
  have st2: "re_lit '','' r1 = Some r2"
    unfolding r1_def by (rule re_lit_pieces)
  have st3: "re_ws r2 = Some r3"
    unfolding r2_def r3_def using month_all[of r4] mo by (intro re_ws_piece) blast+
  have st4: "re_seq re_B_names r3 = Some (month_names ! (mo - 1), r4)"
    unfolding r3_def using month_all[of r4] mo by blast
  have st5: "re_ws r4 = Some r5"
    unfolding r4_def r5_def using day_all[of r7] d by (intro re_ws_piece) blast+
  have st6: "re_d r5 = Some (day_digits d, r6)"
    unfolding r5_def r6_def using day_all[of r7] d by blast
  have st7: "re_lit '','' r6 = Some r7"
    unfolding r6_def by (rule re_lit_pieces)
  have st8: "re_ws r7 = Some r8"
    unfolding r7_def r8_def using four_digits_facts(2,3)[OF assms(6)] by (intro re_ws_piece)
  have st9: "re_Y r8 = Some (four_digits y, r9)"
    unfolding r8_def by (rule four_digits_facts(1)[OF assms(6)])
  have st10: "re_ws r9 = Some r10"
    unfolding r9_def r10_def by (rule re_ws_at)
  have st11: "re_lit ''at'' r10 = Some r11"
    unfolding r10_def by (rule re_lit_pieces)
  have st12: "re_ws r11 = Some r12"
    unfolding r11_def r12_def using two_digits_facts(1,2)[OF h100] by (intro re_ws_piece)
  have st13: "re_I r12 = Some (two_digits h, r13)"
    unfolding r12_def r13_def using hour_all[of r14] h by blast
  have st14: "re_lit '':'' r13 = Some r14"
    unfolding r13_def by (rule re_lit_pieces)
  have st15: "re_M r14 = Some (two_digits mi, r15)"
    unfolding r14_def by (rule minute_piece[OF assms(9)])
  have st16: "re_lit '':'' r15 = Some r16"
    unfolding r15_def by (rule re_lit_pieces)
  have st17: "re_S r16 = Some (two_digits s, r17)"
    unfolding r16_def by (rule second_piece[OF assms(10)])
  have st18: "re_ws r17 = Some r18"
    unfolding r17_def r18_def
    using re_ws_piece[of "am_or_pm pm" "[]"] am_or_pm_facts(3,4)[of pm] by simp
  have st19: "re_seq am_pm r18 = Some (am_or_pm pm, [])"
    unfolding r18_def by (rule am_or_pm_facts)
  have "render_date wd mo d y h mi s pm = r0"
    by (simp add: render_date_def r0_def r1_def r2_def r3_def r4_def r5_def r6_def r7_def
        r8_def r9_def r10_def r11_def r12_def r13_def r14_def r15_def r16_def r17_def r18_def)
  moreover have "format_regex_match r0 =
      Some (\<lparr>g_A = weekday_names ! wd, g_B = month_names ! (mo - 1), g_d = day_digits d,
              g_Y = four_digits y, g_I = two_digits h, g_M = two_digits mi,
              g_S = two_digits s, g_p = am_or_pm pm\<rparr>, [])"
    unfolding format_regex_match_def
    by (simp add: st1 st2 st3 st4 st5 st6 st7 st8 st9 st10 st11 st12 st13 st14 st15 st16 st17
        st18 st19)
  ultimately show ?thesis by simp
qed

lemma days_in_month_le:
  assumes "1 \<le> mo" and "mo \<le> 12"
  shows "days_in_month y (int mo) \<le> 31"
proof -
  have "\<forall>m\<in>set [1, 2, 3, 4, 5, 6, 7, 8, 9, 10, 11, 12]. days_in_month y (int m) \<le> 31"
    by (simp add: days_in_month_def)
  then show ?thesis using month_cases[OF assms] by blast
qed

lemma render_strptime:
  assumes "wd < 7" and "1 \<le> mo" and "mo \<le> 12" and "1 \<le> d"
    and "int d \<le> days_in_month (int y) (int mo)"
    and "1 \<le> y" and "y \<le> 9999" and "1 \<le> h" and "h \<le> 12" and "mi < 60" and "s < 60"
  shows "strptime (render_date wd mo d y h mi s pm) chat_format =
      Inr \<lparr>dt_year = int y, dt_month = int mo, dt_day = int d,
           dt_hour = int (h mod 12 + (if pm then 12 else 0)),
           dt_minute = int mi, dt_second = int s\<rparr>"
proof -
  have d31: "d \<le> 31"
    using assms(5) days_in_month_le[OF assms(2,3), of "int y"] by linarith
  have y: "y < 10000" using assms(7) by simp
  have m: "format_regex_match (render_date wd mo d y h mi s pm) =
      Some (\<lparr>g_A = weekday_names ! wd, g_B = month_names ! (mo - 1), g_d = day_digits d,
              g_Y = four_digits y, g_I = two_digits h, g_M = two_digits mi,
              g_S = two_digits s, g_p = am_or_pm pm\<rparr>, [])"
    using assms d31 y by (intro render_parses) simp_all
  have mo: "mo \<in> set [1, 2, 3, 4, 5, 6, 7, 8, 9, 10, 11, 12]"
    using assms(2,3) by (rule month_cases)
  have month: "list_index f_month (map ascii_lower (month_names ! (mo - 1))) = int mo"
    using month_all[of "[]"] mo by blast
  have year: "py_int (four_digits y) = int y"
    using y by (rule py_int_four)
  have day: "py_int (day_digits d) = int d"
    using d31 by (intro py_int_day) simp
  have hour: "hour_of (py_int (two_digits h)) (map ascii_lower (am_or_pm pm)) =
      int (h mod 12 + (if pm then 12 else 0))"
  proof -
    have "py_int (two_digits h) = int h"
      using assms(9) by (intro py_int_two) simp
    then show ?thesis
      by (simp only: am_or_pm_facts(2) hour_of_12[OF assms(8,9)])
  qed
  have minute: "py_int (two_digits mi) = int mi"
    using assms(10) by (intro py_int_two) simp
  have second: "py_int (two_digits s) = int s"
    using assms(11) by (intro py_int_two) simp
  have hr: "int (h mod 12 + (if pm then 12 else 0)) \<le> 23"
    "0 \<le> int (h mod 12 + (if pm then 12 else 0))"
  proof -
    have "h mod 12 < 12" by simp
    then have "h mod 12 + (if pm then 12 else 0) \<le> 23" by (cases pm) simp_all
    then show "int (h mod 12 + (if pm then 12 else 0)) \<le> 23" by linarith
    show "0 \<le> int (h mod 12 + (if pm then 12 else 0))" by simp
  qed
  have new: "datetime_new (int y) (int mo) (int d) (int (h mod 12 + (if pm then 12 else 0)))
      (int mi) (int s) =
      Inr \<lparr>dt_year = int y, dt_month = int mo, dt_day = int d,
           dt_hour = int (h mod 12 + (if pm then 12 else 0)),
           dt_minute = int mi, dt_second = int s\<rparr>"
    using assms hr unfolding datetime_new_def by simp
  show ?thesis
    unfolding strptime_def
    by (simp only: m month year day hour minute second new Let_def
        groups.simps option.case prod.case if_True if_False list.simps refl simp_thms)
qed

lemma replace_no_U:
  "CHR ''U'' \<notin> set a \<Longrightarrow> replace (a @ b) ''UTC'' '''' = a @ replace b ''UTC'' ''''"
proof (induction a)
  case Nil
  then show ?case by simp
next
  case (Cons c a)
  then have "c \<noteq> CHR ''U''" by auto
  then have "\<not> starts_with (c # a @ b) ''UTC''" by simp
  then have "replace (c # a @ b) ''UTC'' '''' = c # replace (a @ b) ''UTC'' ''''"
    by (rule replace_other_step)
  then show ?case using Cons by simp
qed

lemma render_no_U:
  assumes "wd < 7" and "1 \<le> mo" and "mo \<le> 12" and "1 \<le> d" and "d \<le> 31"
    and "y < 10000" and "h < 100" and "mi < 100" and "s < 100"
  shows "CHR ''U'' \<notin> set (render_date wd mo d y h mi s pm)"
    and "render_date wd mo d y h mi s pm \<noteq> []"
    and "\<not> is_space (hd (render_date wd mo d y h mi s pm))"
    and "\<not> is_space (last (render_date wd mo d y h mi s pm))"
proof -
  have wd: "weekday_names ! wd \<noteq> []" "\<not> is_space (hd (weekday_names ! wd))"
      "CHR ''U'' \<notin> set (weekday_names ! wd)"
    using weekday_all[of "[]"] below_7[OF assms(1)] by blast+
  have mo: "CHR ''U'' \<notin> set (month_names ! (mo - 1))"
    using month_all[of "[]"] month_cases[OF assms(2,3)] by blast
  have d: "CHR ''U'' \<notin> set (day_digits d)"
    using day_all[of "[]"] day_cases[OF assms(4,5)] by blast
  show "CHR ''U'' \<notin> set (render_date wd mo d y h mi s pm)"
    using wd(3) mo d four_digits_facts(4)[OF assms(6)] two_digits_facts(3)[OF assms(7)]
      two_digits_facts(3)[OF assms(8)] two_digits_facts(3)[OF assms(9)]
      am_or_pm_facts(6)[of pm]
    by (simp add: render_date_def)
  show "render_date wd mo d y h mi s pm \<noteq> []"
    using wd(1) by (simp add: render_date_def)
  show "\<not> is_space (hd (render_date wd mo d y h mi s pm))"
    using wd(1,2) by (simp add: render_date_def)
  show "\<not> is_space (last (render_date wd mo d y h mi s pm))"
    using am_or_pm_facts(3,5)[of pm] by (simp add: render_date_def)
qed

lemma strip_trailing_space:
  assumes "x \<noteq> []" and "\<not> is_space (hd x)" and "\<not> is_space (last x)"
  shows "strip (x @ '' '') = x"
proof -
  obtain c cs where x: "x = c # cs" using assms(1) by (cases x) auto
  then have "dropWhile is_space (x @ '' '') = x @ '' ''"
    using assms(2) by simp
  moreover have "dropWhile is_space (rev (x @ '' '')) = rev x"
  proof -
    have "rev x \<noteq> []" using assms(1) by simp
    then obtain e es where r: "rev x = e # es" by (cases "rev x") auto
    then have "e = last x" using assms(1) by (metis last_rev list.sel(1) rev_rev_ident hd_rev)
    then have ns: "\<not> is_space e" using assms(3) by simp
    have sp: "is_space (CHR '' '')" by (simp add: is_space_def)
    have "dropWhile is_space (rev (x @ '' '')) = dropWhile is_space (e # es)"
      using sp r by simp
    also have "\<dots> = e # es" using ns by simp
    finally show ?thesis using r by simp
  qed
  ultimately show ?thesis by (simp add: strip_def)
qed

lemma replace_utc_token: "replace '' UTC'' ''UTC'' '''' = '' ''"
  by code_simp

lemma render_to_epoch:
  assumes "wd < 7" and "1 \<le> mo" and "mo \<le> 12" and "1 \<le> d"
    and "int d \<le> days_in_month (int y) (int mo)"
    and "1 \<le> y" and "y \<le> 9999" and "1 \<le> h" and "h \<le> 12" and "mi < 60" and "s < 60"
  shows "datetime_to_epoch (render_date wd mo d y h mi s pm @ '' UTC'') =
      Inr (Some ((ymd2ord (int y) (int mo) (int d) - 719163) * 86400
            + int (h mod 12 + (if pm then 12 else 0)) * 3600 + int mi * 60 + int s))"
proof -
  let ?r = "render_date wd mo d y h mi s pm"
  have d31: "d \<le> 31"
    using assms(5) days_in_month_le[OF assms(2,3), of "int y"] by linarith
  have facts: "CHR ''U'' \<notin> set ?r" "?r \<noteq> []" "\<not> is_space (hd ?r)" "\<not> is_space (last ?r)"
    using assms d31 by (intro render_no_U; simp)+
  have "replace (?r @ '' UTC'') ''UTC'' '''' = ?r @ '' ''"
    using replace_no_U[OF facts(1), of "'' UTC''"] by (simp only: replace_utc_token)
  then have e: "strip (replace (?r @ '' UTC'') ''UTC'' '''') = ?r"
    using strip_trailing_space[OF facts(2,3,4)] by simp
  have ne: "?r @ '' UTC'' \<noteq> ''Unknown Date''"
  proof
    assume "?r @ '' UTC'' = ''Unknown Date''"
    then have "last (?r @ '' UTC'') = last ''Unknown Date''" by simp
    then show False by simp
  qed
  show ?thesis
    unfolding datetime_to_epoch_eq
    by (simp only: ne if_False e render_strptime[OF assms] sum.case timestamp_utc_def
        datetime.simps)
qed

lemma starts_with_space_append:
  "starts_with (w @ CHR '' '' # t) ''UTC'' \<longleftrightarrow> starts_with w ''UTC''"
  by (cases w; cases "tl w"; cases "tl (tl w)") auto

lemma replace_before_space:
  "replace (w @ CHR '' '' # t) ''UTC'' '''' =
     replace w ''UTC'' '''' @ CHR '' '' # replace t ''UTC'' ''''"
proof (induction "length w" arbitrary: w rule: less_induct)
  case less
  show ?case
  proof (cases w)
    case Nil
    have "\<not> starts_with (CHR '' '' # t) ''UTC''" by simp
    then have "replace (CHR '' '' # t) ''UTC'' '''' = CHR '' '' # replace t ''UTC'' ''''"
      by (rule replace_other_step)
    then show ?thesis using Nil by simp
  next
    case (Cons a w')
    show ?thesis
    proof (cases "starts_with w ''UTC''")
      case True
      then obtain r where r: "w = ''UTC'' @ r"
        using starts_with_UTC by blast
      then have "length r < length w" by simp
      then have "replace (r @ CHR '' '' # t) ''UTC'' '''' =
          replace r ''UTC'' '''' @ CHR '' '' # replace t ''UTC'' ''''"
        by (rule less)
      moreover have "replace (w @ CHR '' '' # t) ''UTC'' '''' =
          replace (r @ CHR '' '' # t) ''UTC'' ''''"
        using replace_UTC_step[of "r @ CHR '' '' # t"] r by simp
      moreover have "replace w ''UTC'' '''' = replace r ''UTC'' ''''"
        using replace_UTC_step[of r] r by simp
      ultimately show ?thesis by simp
    next
      case False
      then have n: "\<not> starts_with (a # w' @ CHR '' '' # t) ''UTC''"
        using starts_with_space_append[of w t] Cons by simp
      have "length w' < length w" using Cons by simp
      then have ih: "replace (w' @ CHR '' '' # t) ''UTC'' '''' =
          replace w' ''UTC'' '''' @ CHR '' '' # replace t ''UTC'' ''''"
        by (rule less)
      have "replace (a # w' @ CHR '' '' # t) ''UTC'' '''' =
          a # replace (w' @ CHR '' '' # t) ''UTC'' ''''"
        using n by (rule replace_other_step)
      moreover have "replace (a # w') ''UTC'' '''' = a # replace w' ''UTC'' ''''"
        using False Cons by (intro replace_other_step) simp
      ultimately show ?thesis using ih Cons by simp
    qed
  qed
qed

lemma strip_space_end: "strip (x @ '' '') = strip x"
proof (cases "\<forall>c\<in>set x. is_space c")
  case True
  have sp: "is_space (CHR '' '')" by (simp add: is_space_def)
  have a: "dropWhile is_space x = []" using True by simp
  have "\<forall>c\<in>set (x @ '' ''). is_space c" using True sp by simp
  then have b: "dropWhile is_space (x @ '' '') = []" by (simp only: dropWhile_eq_Nil_conv)
  show ?thesis by (simp only: strip_def a b)
next
  case False
  have sp: "is_space (CHR '' '')" by (simp add: is_space_def)
  have "dropWhile is_space (x @ '' '') = dropWhile is_space x @ '' ''"
    using False by (simp add: dropWhile_append)
  then show ?thesis using sp by (simp add: strip_def)
qed

lemma sentinel_does_not_parse:
  "strptime (strip (replace ''Unknown Date'' ''UTC'' '''')) chat_format = Inl ValueError"
  by code_simp

lemma utc_token_dropped: "datetime_to_epoch (w @ '' UTC'') = datetime_to_epoch w"
proof -
  have "replace (w @ '' UTC'') ''UTC'' '''' = replace w ''UTC'' '''' @ '' ''"
    using replace_before_space[of w "''UTC''"] by simp
  then have e: "strip (replace (w @ '' UTC'') ''UTC'' '''') = strip (replace w ''UTC'' '''')"
    by (simp only: strip_space_end)
  have ne: "w @ '' UTC'' \<noteq> ''Unknown Date''"
  proof
    assume "w @ '' UTC'' = ''Unknown Date''"
    then have "last (w @ '' UTC'') = last ''Unknown Date''" by simp
    then show False by simp
  qed
  show ?thesis
  proof (cases "w = ''Unknown Date''")
    case True
    then show ?thesis
      using sentinel_does_not_parse e ne by (simp add: datetime_to_epoch_eq)
  next
    case False
    then show ?thesis
      using e ne by (simp add: datetime_to_epoch_eq)
  qed
qed


section \<open>The claims\<close>

text \<open>
  Claim C1. For every window centre \<open>i = 10 + 19 k\<close> below the length of the sequence,
  both variants emit a document (the \<open>k\<close>-th), and its text is the concatenation, in order,
  of the blocks of the messages at the indices \<open>max 0 (i - 10)\<close> to
  \<open>min (length - 1) (i + 10)\<close>; a block is the creator's name (\<open>Unknown\<close> without one),
  a newline, the text (\<open>No text available\<close> without one) and two newlines.
\<close>

theorem window_text_of_documents:
  "(\<exists>docs. process_dms messages = Inr docs
      \<and> (\<forall>k. 10 + 19 * k < length messages \<longrightarrow>
            k < length docs
            \<and> doc_text (docs ! k) = spec_window messages (10 + 19 * int k)))
   \<and> (roster_ok membership_info \<longrightarrow>
        (\<exists>docs. process_spaces messages membership_info = Inr docs))
   \<and> (\<forall>docs. process_spaces messages membership_info = Inr docs \<longrightarrow>
        (\<forall>k. 10 + 19 * k < length messages \<longrightarrow>
            k < length docs
            \<and> doc_text (docs ! k) = spec_window messages (10 + 19 * int k)))"
proof (intro conjI allI impI)
  obtain docs where docs: "process_dms messages = Inr docs"
      "length docs = length (py_range 10 (int (length messages)) 19)"
      "\<forall>k<length docs. docs ! k =
          spec_document ''dm'' (NameList (names_loop messages []))
            ''https://chat.google.com/dm/'' messages (10 + 19 * int k)"
    using dm_docs[of messages] by blast
  have "k < length docs \<and> doc_text (docs ! k) = spec_window messages (10 + 19 * int k)"
    if "10 + 19 * k < length messages" for k
  proof -
    have "k < length docs"
      using that docs(2) by (simp only: center_iff_nat)
    then show ?thesis
      using docs(3) by (simp add: spec_document_fields)
  qed
  then show "\<exists>docs. process_dms messages = Inr docs
      \<and> (\<forall>k. 10 + 19 * k < length messages \<longrightarrow>
            k < length docs
            \<and> doc_text (docs ! k) = spec_window messages (10 + 19 * int k))"
    using docs(1) by blast
next
  assume "roster_ok membership_info"
  then show "\<exists>docs. process_spaces messages membership_info = Inr docs"
    by (rule process_spaces_total)
next
  fix docs k
  assume "process_spaces messages membership_info = Inr docs"
  then obtain nm where docs:
      "length docs = length (py_range 10 (int (length messages)) 19)"
      "\<forall>k<length docs. docs ! k =
          spec_document ''space'' (NameStr nm)
            ''https://chat.google.com/room/'' messages (10 + 19 * int k)"
    using space_docs by blast
  assume "10 + 19 * k < length messages"
  then have k: "k < length docs"
    using docs(1) by (simp only: center_iff_nat)
  then show "k < length docs" .
  show "doc_text (docs ! k) = spec_window messages (10 + 19 * int k)"
    using k docs(2) by (simp add: spec_document_fields)
qed

theorem window_text_of_documents_witness:
  "\<exists>docs. process_dms demo_messages = Inr docs
     \<and> doc_text (docs ! 1) =
         concat (replicate 10 ''Unknown\<newline>No text available\<newline>\<newline>'') @ ''Unknown\<newline>bye\<newline>\<newline>''"
proof -
  have w: "spec_window demo_messages (10 + 19 * int 1) =
      concat (replicate 10 ''Unknown\<newline>No text available\<newline>\<newline>'') @ ''Unknown\<newline>bye\<newline>\<newline>''"
    by code_simp
  have "10 + 19 * 1 < length demo_messages"
    by (simp add: length_demo)
  then show ?thesis
    using window_text_of_documents[of demo_messages demo_roster] unfolding w[symmetric]
    by blast
qed

text \<open>
  Claim C2. Both variants return no document for at most 10 messages, and
  \<open>(length - 11) div 19 + 1\<close> documents for more.
\<close>

theorem document_count:
  "(\<exists>docs. process_dms messages = Inr docs
      \<and> length docs = (if length messages \<le> 10 then 0 else (length messages - 11) div 19 + 1))
   \<and> (roster_ok membership_info \<longrightarrow>
        (\<exists>docs. process_spaces messages membership_info = Inr docs))
   \<and> (\<forall>docs. process_spaces messages membership_info = Inr docs \<longrightarrow>
        length docs = (if length messages \<le> 10 then 0 else (length messages - 11) div 19 + 1))"
proof (intro conjI allI impI)
  obtain docs where "process_dms messages = Inr docs"
      "length docs = length (py_range 10 (int (length messages)) 19)"
    using dm_docs[of messages] by blast
  then show "\<exists>docs. process_dms messages = Inr docs
      \<and> length docs = (if length messages \<le> 10 then 0 else (length messages - 11) div 19 + 1)"
    by (simp only: centers_length_nat) blast
next
  assume "roster_ok membership_info"
  then show "\<exists>docs. process_spaces messages membership_info = Inr docs"
    by (rule process_spaces_total)
next
  fix docs
  assume "process_spaces messages membership_info = Inr docs"
  then have "length docs = length (py_range 10 (int (length messages)) 19)"
    using space_docs by blast
  then show "length docs = (if length messages \<le> 10 then 0 else (length messages - 11) div 19 + 1)"
    by (simp only: centers_length_nat)
qed

theorem document_count_witness:
  "(\<exists>docs. process_dms demo_messages = Inr docs \<and> length docs = 2)
   \<and> (\<exists>docs. process_spaces demo_messages demo_roster = Inr docs \<and> length docs = 2)"
proof -
  have n: "(if length demo_messages \<le> 10 then 0 else (length demo_messages - 11) div 19 + 1) = 2"
    by (simp add: length_demo)
  show ?thesis
    using document_count[of demo_messages demo_roster] roster_ok_demo unfolding n
    by blast
qed

text \<open>
  Claim C3. In the document of the window centre \<open>i = 10 + 19 k\<close>, \<open>date\<close> is the
  \<open>created_date\<close> of the message at \<open>i\<close> (\<open>Unknown Date\<close> without one), \<open>unix_time\<close> is
  its conversion, and \<open>message_id\<close> is the \<open>message_id\<close> of the message at \<open>i - 10\<close>
  (\<open>Unknown ID\<close> without one).
\<close>

theorem anchor_metadata:
  "(\<exists>docs. process_dms messages = Inr docs
      \<and> (\<forall>k. 10 + 19 * k < length messages \<longrightarrow>
            k < length docs
            \<and> md_date (doc_metadata (docs ! k)) =
                (case created_date (messages ! (10 + 19 * k)) of
                   None \<Rightarrow> ''Unknown Date'' | Some d \<Rightarrow> d)
            \<and> datetime_to_epoch
                  (case created_date (messages ! (10 + 19 * k)) of
                     None \<Rightarrow> ''Unknown Date'' | Some d \<Rightarrow> d) =
                Inr (md_unix_time (doc_metadata (docs ! k)))
            \<and> md_message_id (doc_metadata (docs ! k)) =
                (case message_id (messages ! (10 + 19 * k - 10)) of
                   None \<Rightarrow> ''Unknown ID'' | Some x \<Rightarrow> x)))
   \<and> (roster_ok membership_info \<longrightarrow>
        (\<exists>docs. process_spaces messages membership_info = Inr docs))
   \<and> (\<forall>docs. process_spaces messages membership_info = Inr docs \<longrightarrow>
        (\<forall>k. 10 + 19 * k < length messages \<longrightarrow>
            k < length docs
            \<and> md_date (doc_metadata (docs ! k)) =
                (case created_date (messages ! (10 + 19 * k)) of
                   None \<Rightarrow> ''Unknown Date'' | Some d \<Rightarrow> d)
            \<and> datetime_to_epoch
                  (case created_date (messages ! (10 + 19 * k)) of
                     None \<Rightarrow> ''Unknown Date'' | Some d \<Rightarrow> d) =
                Inr (md_unix_time (doc_metadata (docs ! k)))
            \<and> md_message_id (doc_metadata (docs ! k)) =
                (case message_id (messages ! (10 + 19 * k - 10)) of
                   None \<Rightarrow> ''Unknown ID'' | Some x \<Rightarrow> x)))"
proof -
  let ?P = "\<lambda>docs k. k < length docs
            \<and> md_date (doc_metadata (docs ! k)) =
                (case created_date (messages ! (10 + 19 * k)) of
                   None \<Rightarrow> ''Unknown Date'' | Some d \<Rightarrow> d)
            \<and> datetime_to_epoch
                  (case created_date (messages ! (10 + 19 * k)) of
                     None \<Rightarrow> ''Unknown Date'' | Some d \<Rightarrow> d) =
                Inr (md_unix_time (doc_metadata (docs ! k)))
            \<and> md_message_id (doc_metadata (docs ! k)) =
                (case message_id (messages ! (10 + 19 * k - 10)) of
                   None \<Rightarrow> ''Unknown ID'' | Some x \<Rightarrow> x)"
  have fields: "?P docs k"
    if len: "length docs = length (py_range 10 (int (length messages)) 19)"
      and nth: "\<forall>k<length docs. docs ! k = spec_document t nm url messages (10 + 19 * int k)"
      and k: "10 + 19 * k < length messages"
    for docs :: "document list" and k t nm url
  proof -
    have "k < length docs"
      using k len by (simp only: center_iff_nat)
    then show ?thesis
      using nth by (simp add: spec_document_fields center_nat datetime_to_epoch_total)
  qed
  obtain ddocs where ddocs: "process_dms messages = Inr ddocs"
      "length ddocs = length (py_range 10 (int (length messages)) 19)"
      "\<forall>k<length ddocs. ddocs ! k =
          spec_document ''dm'' (NameList (names_loop messages []))
            ''https://chat.google.com/dm/'' messages (10 + 19 * int k)"
    using dm_docs[of messages] by blast
  have "\<forall>k. 10 + 19 * k < length messages \<longrightarrow> ?P ddocs k"
    using fields[OF ddocs(2) ddocs(3)] by blast
  then have dm: "\<exists>docs. process_dms messages = Inr docs
      \<and> (\<forall>k. 10 + 19 * k < length messages \<longrightarrow> ?P docs k)"
    using ddocs(1) by blast
  have sp: "\<forall>k. 10 + 19 * k < length messages \<longrightarrow> ?P docs k"
    if ps: "process_spaces messages membership_info = Inr docs" for docs
  proof -
    obtain nm where docs:
      "length docs = length (py_range 10 (int (length messages)) 19)"
      "\<forall>k<length docs. docs ! k =
          spec_document ''space'' (NameStr nm)
            ''https://chat.google.com/room/'' messages (10 + 19 * int k)"
      using space_docs[OF ps] by blast
    show ?thesis
      using fields[OF docs(1) docs(2)] by blast
  qed
  show ?thesis
    using dm sp process_spaces_total[of membership_info messages] by blast
qed

theorem anchor_metadata_witness:
  "\<exists>docs. process_spaces demo_messages demo_roster = Inr docs
     \<and> md_date (doc_metadata (docs ! 0)) = ''Monday, January 1, 2024 at 09:30:00 AM UTC''
     \<and> md_unix_time (doc_metadata (docs ! 0)) = Some 1704101400
     \<and> md_message_id (doc_metadata (docs ! 0)) = ''AAA/m1''"
proof -
  have t: "datetime_to_epoch ''Monday, January 1, 2024 at 09:30:00 AM UTC'' = Inr (Some 1704101400)"
    by code_simp
  have k: "10 + 19 * 0 < length demo_messages"
    by (simp add: length_demo)
  obtain docs where docs: "process_spaces demo_messages demo_roster = Inr docs"
    using anchor_metadata[of demo_messages demo_roster] roster_ok_demo by blast
  have "md_date (doc_metadata (docs ! 0)) = ''Monday, January 1, 2024 at 09:30:00 AM UTC''
     \<and> md_unix_time (doc_metadata (docs ! 0)) = Some 1704101400
     \<and> md_message_id (doc_metadata (docs ! 0)) = ''AAA/m1''"
  proof -
    have "md_date (doc_metadata (docs ! 0)) =
          (case created_date (demo_messages ! (10 + 19 * 0)) of
             None \<Rightarrow> ''Unknown Date'' | Some d \<Rightarrow> d)
        \<and> datetime_to_epoch
            (case created_date (demo_messages ! (10 + 19 * 0)) of
               None \<Rightarrow> ''Unknown Date'' | Some d \<Rightarrow> d) =
          Inr (md_unix_time (doc_metadata (docs ! 0)))
        \<and> md_message_id (doc_metadata (docs ! 0)) =
          (case message_id (demo_messages ! (10 + 19 * 0 - 10)) of
             None \<Rightarrow> ''Unknown ID'' | Some x \<Rightarrow> x)"
      using anchor_metadata[of demo_messages demo_roster] docs k by blast
    then show ?thesis
      by (simp add: demo_nth bob_message_def ann_message_def t)
  qed
  then show ?thesis using docs by blast
qed

text \<open>
  Claim C9. When the message at \<open>i - 10\<close> has no \<open>message_id\<close>, the document's
  \<open>message_id\<close> is \<open>Unknown ID\<close> while its \<open>url\<close> ends with the empty string: it is the
  bare prefix of the variant.
\<close>

theorem missing_id_defaults:
  "(\<exists>docs. process_dms messages = Inr docs
      \<and> (\<forall>k. 10 + 19 * k < length messages
              \<and> message_id (messages ! (10 + 19 * k - 10)) = None \<longrightarrow>
            k < length docs
            \<and> md_message_id (doc_metadata (docs ! k)) = ''Unknown ID''
            \<and> md_url (doc_metadata (docs ! k)) = ''https://chat.google.com/dm/''))
   \<and> (roster_ok membership_info \<longrightarrow>
        (\<exists>docs. process_spaces messages membership_info = Inr docs))
   \<and> (\<forall>docs. process_spaces messages membership_info = Inr docs \<longrightarrow>
        (\<forall>k. 10 + 19 * k < length messages
              \<and> message_id (messages ! (10 + 19 * k - 10)) = None \<longrightarrow>
            k < length docs
            \<and> md_message_id (doc_metadata (docs ! k)) = ''Unknown ID''
            \<and> md_url (doc_metadata (docs ! k)) = ''https://chat.google.com/room/''))"
proof -
  have fields: "k < length docs
      \<and> md_message_id (doc_metadata (docs ! k)) = ''Unknown ID''
      \<and> md_url (doc_metadata (docs ! k)) = url"
    if len: "length docs = length (py_range 10 (int (length messages)) 19)"
      and nth: "\<forall>k<length docs. docs ! k = spec_document t nm url messages (10 + 19 * int k)"
      and k: "10 + 19 * k < length messages"
      and none: "message_id (messages ! (10 + 19 * k - 10)) = None"
    for docs :: "document list" and k t nm url
  proof -
    have "k < length docs"
      using k len by (simp only: center_iff_nat)
    then show ?thesis
      using nth none by (simp add: spec_document_fields center_nat)
  qed
  obtain ddocs where ddocs: "process_dms messages = Inr ddocs"
      "length ddocs = length (py_range 10 (int (length messages)) 19)"
      "\<forall>k<length ddocs. ddocs ! k =
          spec_document ''dm'' (NameList (names_loop messages []))
            ''https://chat.google.com/dm/'' messages (10 + 19 * int k)"
    using dm_docs[of messages] by blast
  have dm: "\<exists>docs. process_dms messages = Inr docs
      \<and> (\<forall>k. 10 + 19 * k < length messages
              \<and> message_id (messages ! (10 + 19 * k - 10)) = None \<longrightarrow>
            k < length docs
            \<and> md_message_id (doc_metadata (docs ! k)) = ''Unknown ID''
            \<and> md_url (doc_metadata (docs ! k)) = ''https://chat.google.com/dm/'')"
    using ddocs(1) fields[OF ddocs(2) ddocs(3)] by blast
  have sp: "\<forall>k. 10 + 19 * k < length messages
              \<and> message_id (messages ! (10 + 19 * k - 10)) = None \<longrightarrow>
            k < length docs
            \<and> md_message_id (doc_metadata (docs ! k)) = ''Unknown ID''
            \<and> md_url (doc_metadata (docs ! k)) = ''https://chat.google.com/room/''"
    if ps: "process_spaces messages membership_info = Inr docs" for docs
  proof -
    obtain nm where docs:
      "length docs = length (py_range 10 (int (length messages)) 19)"
      "\<forall>k<length docs. docs ! k =
          spec_document ''space'' (NameStr nm)
            ''https://chat.google.com/room/'' messages (10 + 19 * int k)"
      using space_docs[OF ps] by blast
    show ?thesis
      using fields[OF docs(1) docs(2)] by blast
  qed
  show ?thesis
    using dm sp process_spaces_total[of membership_info messages] by blast
qed

theorem missing_id_defaults_witness:
  "(\<exists>docs. process_dms demo_messages = Inr docs
      \<and> md_message_id (doc_metadata (docs ! 1)) = ''Unknown ID''
      \<and> md_url (doc_metadata (docs ! 1)) = ''https://chat.google.com/dm/'')
   \<and> (\<exists>docs. process_spaces demo_messages demo_roster = Inr docs
      \<and> md_message_id (doc_metadata (docs ! 1)) = ''Unknown ID''
      \<and> md_url (doc_metadata (docs ! 1)) = ''https://chat.google.com/room/'')"
proof -
  have k: "10 + 19 * 1 < length demo_messages
      \<and> message_id (demo_messages ! (10 + 19 * 1 - 10)) = None"
    by (simp add: length_demo demo_nth plain_message_def)
  show ?thesis
    using missing_id_defaults[of demo_messages demo_roster] roster_ok_demo k
    by blast
qed

text \<open>
  Claim C10. The two variants return the same number of documents with the same texts, one
  by one; the anchor id, the date and the time agree as well, the type differs.
\<close>

theorem variants_same_text:
  "\<exists>ddocs. process_dms messages = Inr ddocs
     \<and> (roster_ok membership_info \<longrightarrow>
          (\<exists>sdocs. process_spaces messages membership_info = Inr sdocs))
     \<and> (\<forall>sdocs. process_spaces messages membership_info = Inr sdocs \<longrightarrow>
          length sdocs = length ddocs
          \<and> (\<forall>k<length ddocs.
                doc_text (sdocs ! k) = doc_text (ddocs ! k)
                \<and> md_message_id (doc_metadata (sdocs ! k)) = md_message_id (doc_metadata (ddocs ! k))
                \<and> md_date (doc_metadata (sdocs ! k)) = md_date (doc_metadata (ddocs ! k))
                \<and> md_unix_time (doc_metadata (sdocs ! k)) = md_unix_time (doc_metadata (ddocs ! k))
                \<and> md_source (doc_metadata (sdocs ! k)) = md_source (doc_metadata (ddocs ! k))
                \<and> md_type (doc_metadata (sdocs ! k)) = ''space''
                \<and> md_type (doc_metadata (ddocs ! k)) = ''dm''))"
proof -
  obtain ddocs where ddocs: "process_dms messages = Inr ddocs"
      "length ddocs = length (py_range 10 (int (length messages)) 19)"
      "\<forall>k<length ddocs. ddocs ! k =
          spec_document ''dm'' (NameList (names_loop messages []))
            ''https://chat.google.com/dm/'' messages (10 + 19 * int k)"
    using dm_docs[of messages] by blast
  have "length sdocs = length ddocs
          \<and> (\<forall>k<length ddocs.
                doc_text (sdocs ! k) = doc_text (ddocs ! k)
                \<and> md_message_id (doc_metadata (sdocs ! k)) = md_message_id (doc_metadata (ddocs ! k))
                \<and> md_date (doc_metadata (sdocs ! k)) = md_date (doc_metadata (ddocs ! k))
                \<and> md_unix_time (doc_metadata (sdocs ! k)) = md_unix_time (doc_metadata (ddocs ! k))
                \<and> md_source (doc_metadata (sdocs ! k)) = md_source (doc_metadata (ddocs ! k))
                \<and> md_type (doc_metadata (sdocs ! k)) = ''space''
                \<and> md_type (doc_metadata (ddocs ! k)) = ''dm'')"
    if ps: "process_spaces messages membership_info = Inr sdocs" for sdocs
  proof -
    obtain nm where sdocs:
      "length sdocs = length (py_range 10 (int (length messages)) 19)"
      "\<forall>k<length sdocs. sdocs ! k =
          spec_document ''space'' (NameStr nm)
            ''https://chat.google.com/room/'' messages (10 + 19 * int k)"
      using space_docs[OF ps] by blast
    show ?thesis
      using sdocs ddocs(2,3) by (simp add: spec_document_fields)
  qed
  then show ?thesis
    using ddocs(1) process_spaces_total[of membership_info messages] by blast
qed

theorem variants_same_text_witness:
  "\<exists>ddocs sdocs. process_dms demo_messages = Inr ddocs
     \<and> process_spaces demo_messages demo_roster = Inr sdocs
     \<and> length sdocs = length ddocs \<and> length ddocs = 2
     \<and> doc_text (sdocs ! 0) = doc_text (ddocs ! 0)
     \<and> doc_text (sdocs ! 1) = doc_text (ddocs ! 1)"
proof -
  obtain ddocs where d: "process_dms demo_messages = Inr ddocs"
    and ex: "\<exists>sdocs. process_spaces demo_messages demo_roster = Inr sdocs"
    and all: "\<forall>sdocs. process_spaces demo_messages demo_roster = Inr sdocs \<longrightarrow>
          length sdocs = length ddocs
          \<and> (\<forall>k<length ddocs. doc_text (sdocs ! k) = doc_text (ddocs ! k))"
    using variants_same_text[of demo_messages demo_roster] roster_ok_demo by blast
  have c: "length (py_range 10 (int (length demo_messages)) 19) = 2"
    unfolding centers_length_nat by (simp add: length_demo)
  have "length ddocs = length (py_range 10 (int (length demo_messages)) 19)"
    using dm_docs[of demo_messages] d by auto
  then have "length ddocs = 2"
    by (simp only: c)
  then show ?thesis
    using d ex all by auto
qed

text \<open>
  Claim C7. The DM variant gives every document, as \<open>name\<close>, the creator names of the
  whole sequence (\<open>Unknown\<close> for a message without one), each once, in the order in which
  they first appear.
\<close>

theorem dm_names_first_seen:
  "names_loop messages [] = first_seen (map spec_name messages)
   \<and> distinct (names_loop messages [])
   \<and> set (names_loop messages []) = set (map spec_name messages)
   \<and> (\<exists>docs. process_dms messages = Inr docs
        \<and> (\<forall>k<length docs.
              md_name (doc_metadata (docs ! k)) =
                NameList (first_seen (map spec_name messages))))"
proof -
  have names: "names_loop messages [] = first_seen (map spec_name messages)"
    by (simp add: names_loop_first_seen)
  obtain docs where docs: "process_dms messages = Inr docs"
      "\<forall>k<length docs. docs ! k =
          spec_document ''dm'' (NameList (names_loop messages []))
            ''https://chat.google.com/dm/'' messages (10 + 19 * int k)"
    using dm_docs[of messages] by blast
  have "\<forall>k<length docs.
      md_name (doc_metadata (docs ! k)) = NameList (first_seen (map spec_name messages))"
    using docs(2) by (simp add: spec_document_fields names)
  then show ?thesis
    using docs(1) names first_seen_distinct[of "map spec_name messages"]
      first_seen_set[of "map spec_name messages"]
    by auto
qed

theorem dm_names_first_seen_witness:
  "names_loop abac_messages [] = [''A'', ''B'', ''C'']
   \<and> (\<exists>docs. process_dms demo_messages = Inr docs
        \<and> length docs = 2
        \<and> md_name (doc_metadata (docs ! 0)) = NameList [''Ann'', ''Unknown'', ''Bob'']
        \<and> md_name (doc_metadata (docs ! 1)) = NameList [''Ann'', ''Unknown'', ''Bob''])"
proof -
  have a: "first_seen (map spec_name abac_messages) = [''A'', ''B'', ''C'']"
    by code_simp
  have d: "first_seen (map spec_name demo_messages) = [''Ann'', ''Unknown'', ''Bob'']"
    by code_simp
  have c: "length (py_range 10 (int (length demo_messages)) 19) = 2"
    unfolding centers_length_nat by (simp add: length_demo)
  obtain docs where docs: "process_dms demo_messages = Inr docs"
      "\<forall>k<length docs.
         md_name (doc_metadata (docs ! k)) = NameList (first_seen (map spec_name demo_messages))"
    using dm_names_first_seen[of demo_messages] by blast
  have "length docs = 2"
    using dm_docs[of demo_messages] docs(1) c by auto
  then show ?thesis
    using dm_names_first_seen[of abac_messages] docs a d by auto
qed




text \<open>
  Claim C6. The three conversions of the specification: the first date of 2024 at half
  past nine is 1704101400, the sentinel and a string that is no date give no time; all
  three return (\<open>Inr\<close>), none raises.
\<close>

theorem datetime_to_epoch_examples:
  "datetime_to_epoch ''Monday, January 1, 2024 at 09:30:00 AM UTC'' = Inr (Some 1704101400)
   \<and> datetime_to_epoch ''Unknown Date'' = Inr None
   \<and> datetime_to_epoch ''garbage'' = Inr None"
  by code_simp

text \<open>
  Claim C5, as stated, fails: the search does not stop at the first entry that matches.
  In the roster below the first entry matches the group part \<open>AAA\<close> and has no name;
  the search passes it over and the name comes from the third entry.
\<close>

theorem first_match_counterexample:
  "find (entry_matches (split_first ''AAA/m1'' (CHR ''/''))) demo_roster
     = Some \<lparr>group_id = Some ''Space AAA'', group_name = Missing\<rparr>
   \<and> first_match_wins demo_roster (split_first ''AAA/m1'' (CHR ''/'')) = ''Unknown Space''
   \<and> get_space_name demo_roster ''AAA/m1'' = Inr ''Team A''
   \<and> space_name_of demo_messages demo_roster = Inr ''Team A''"
  by code_simp

text \<open>
  Claim C5, amended. The group part is the \<open>message_id\<close> of the first message up to its
  first slash (the empty string without a \<open>message_id\<close>). The space name is the name of
  the first roster entry whose \<open>group_id\<close> contains the group part and that has a name
  which is not null; it is \<open>Unknown Space\<close> when there is no such entry, and when there is
  no message.
\<close>

theorem space_name_resolution:
  "(roster_ok membership_info \<longrightarrow>
      space_name_of messages membership_info =
        Inr (case messages of
               [] \<Rightarrow> ''Unknown Space''
             | m # ms \<Rightarrow>
                 first_named_match_wins membership_info
                   (takeWhile (\<lambda>c. c \<noteq> CHR ''/'')
                      (case message_id m of None \<Rightarrow> '''' | Some x \<Rightarrow> x))))
   \<and> ((\<forall>item\<in>set membership_info. \<not> (entry_matches p item \<and> has_name item)) \<longrightarrow>
        first_named_match_wins membership_info p = ''Unknown Space'')
   \<and> (\<forall>item. find (\<lambda>item. entry_matches p item \<and> has_name item) membership_info = Some item
        \<longrightarrow> group_name item = Present (first_named_match_wins membership_info p))"
proof (intro conjI impI allI)
  assume ok: "roster_ok membership_info"
  show "space_name_of messages membership_info =
       Inr (case messages of
              [] \<Rightarrow> ''Unknown Space''
            | m # ms \<Rightarrow>
                first_named_match_wins membership_info
                  (takeWhile (\<lambda>c. c \<noteq> CHR ''/'')
                     (case message_id m of None \<Rightarrow> '''' | Some x \<Rightarrow> x)))"
  proof (cases messages)
    case Nil
    then show ?thesis by (simp add: space_name_of_def)
  next
    case (Cons m ms)
    then show ?thesis
      using space_loop_first_named[OF ok]
      by (simp add: space_name_of_def index_def bind_err_def get_space_name_def
          split_first_def get_def)
  qed
next
  assume "\<forall>item\<in>set membership_info. \<not> (entry_matches p item \<and> has_name item)"
  then have "find (\<lambda>item. entry_matches p item \<and> has_name item) membership_info = None"
    by (simp add: find_None_iff)
  then show "first_named_match_wins membership_info p = ''Unknown Space''"
    by (simp add: first_named_match_wins_def)
next
  fix item
  assume f: "find (\<lambda>item. entry_matches p item \<and> has_name item) membership_info = Some item"
  then have "has_name item"
    by (auto simp: find_Some_iff)
  then show "group_name item = Present (first_named_match_wins membership_info p)"
    using f by (cases "group_name item")
      (simp_all add: first_named_match_wins_def has_name_def name_or_unknown_def)
qed

theorem space_name_resolution_witness:
  "space_name_of demo_messages demo_roster = Inr ''Team A''
   \<and> space_name_of [] demo_roster = Inr ''Unknown Space''
   \<and> space_name_of [bob_message] (take 1 demo_roster) = Inr ''Unknown Space''"
proof -
  have a: "(case demo_messages of
              [] \<Rightarrow> ''Unknown Space''
            | m # ms \<Rightarrow>
                first_named_match_wins demo_roster
                  (takeWhile (\<lambda>c. c \<noteq> CHR ''/'')
                     (case message_id m of None \<Rightarrow> '''' | Some x \<Rightarrow> x))) = ''Team A''"
    by code_simp
  have b: "(case [bob_message] of
              [] \<Rightarrow> ''Unknown Space''
            | m # ms \<Rightarrow>
                first_named_match_wins (take 1 demo_roster)
                  (takeWhile (\<lambda>c. c \<noteq> CHR ''/'')
                     (case message_id m of None \<Rightarrow> '''' | Some x \<Rightarrow> x))) = ''Unknown Space''"
    by code_simp
  have ok: "roster_ok (take 1 demo_roster)"
    by (simp add: roster_ok_def demo_roster_def)
  show ?thesis
    using space_name_resolution[of demo_roster demo_messages] roster_ok_demo
      space_name_resolution[of demo_roster "[]"]
      space_name_resolution[of "take 1 demo_roster" "[bob_message]"] ok
    unfolding a b by simp
qed

text \<open>
  Claim C4, as stated, fails: the time zone is not read as UTC whatever it says. Only the
  text \<open>UTC\<close> is deleted; another token stays in the string, which then does not parse.
\<close>

theorem other_token_counterexample:
  "datetime_to_epoch ''Monday, January 1, 2024 at 09:30:00 AM UTC'' = Inr (Some 1704101400)
   \<and> datetime_to_epoch ''Monday, January 1, 2024 at 09:30:00 AM PST'' = Inr None"
  by code_simp

text \<open>
  Claim C4, amended. The conversion deletes the text \<open>UTC\<close> and reads what is left as a
  wall-clock time in UTC: a date in the format followed by the token \<open>UTC\<close> gives the
  seconds from 1970-01-01 00:00:00 UTC to that time, and appending the token to any string
  does not change the result. No other token is accepted: a string that ends in a character
  other than \<open>C\<close>, \<open>M\<close>, \<open>m\<close> and white space (\<open>PST\<close>, for one) gives no time. No time
  is returned only for the sentinel \<open>Unknown Date\<close> and for a string that does not parse.
\<close>

theorem utc_is_the_only_token:
  "(datetime_to_epoch s = Inr None \<longleftrightarrow>
      s = ''Unknown Date''
      \<or> strptime (strip (replace s ''UTC'' '''')) chat_format = Inl ValueError)
   \<and> datetime_to_epoch (w @ '' UTC'') = datetime_to_epoch w
   \<and> (c \<noteq> CHR ''C'' \<and> c \<noteq> CHR ''M'' \<and> c \<noteq> CHR ''m'' \<and> \<not> is_space c \<longrightarrow>
        datetime_to_epoch (t @ [c]) = Inr None)
   \<and> (wd < 7 \<and> 1 \<le> mo \<and> mo \<le> 12 \<and> 1 \<le> d \<and> int d \<le> days_in_month (int y) (int mo)
        \<and> 1 \<le> y \<and> y \<le> 9999 \<and> 1 \<le> h \<and> h \<le> 12 \<and> mi < 60 \<and> sec < 60 \<longrightarrow>
        datetime_to_epoch (render_date wd mo d y h mi sec pm @ '' UTC'') =
          Inr (Some ((ymd2ord (int y) (int mo) (int d) - 719163) * 86400
                + int (h mod 12 + (if pm then 12 else 0)) * 3600 + int mi * 60 + int sec)))"
proof (intro conjI impI)
  show "datetime_to_epoch s = Inr None \<longleftrightarrow>
      s = ''Unknown Date''
      \<or> strptime (strip (replace s ''UTC'' '''')) chat_format = Inl ValueError"
    by (rule null_only)
  show "datetime_to_epoch (w @ '' UTC'') = datetime_to_epoch w"
    by (rule utc_token_dropped)
next
  assume "c \<noteq> CHR ''C'' \<and> c \<noteq> CHR ''M'' \<and> c \<noteq> CHR ''m'' \<and> \<not> is_space c"
  then show "datetime_to_epoch (t @ [c]) = Inr None"
    by (intro other_token_fails) simp_all
next
  assume "wd < 7 \<and> 1 \<le> mo \<and> mo \<le> 12 \<and> 1 \<le> d \<and> int d \<le> days_in_month (int y) (int mo)
        \<and> 1 \<le> y \<and> y \<le> 9999 \<and> 1 \<le> h \<and> h \<le> 12 \<and> mi < 60 \<and> sec < 60"
  then show "datetime_to_epoch (render_date wd mo d y h mi sec pm @ '' UTC'') =
          Inr (Some ((ymd2ord (int y) (int mo) (int d) - 719163) * 86400
                + int (h mod 12 + (if pm then 12 else 0)) * 3600 + int mi * 60 + int sec))"
    by (intro render_to_epoch) simp_all
qed

theorem utc_is_the_only_token_witness:
  "datetime_to_epoch (''Monday, January 1, 2024 at 09:30:00 AM'' @ '' UTC'') = Inr (Some 1704101400)
   \<and> datetime_to_epoch (''Monday, January 1, 2024 at 09:30:00 AM PS'' @ [CHR ''T'']) = Inr None
   \<and> datetime_to_epoch (''Wednesday, December 31, 1969 at 11:59:59 PM'' @ '' UTC'') = Inr (Some (- 1))"
proof -
  have r1: "render_date 0 1 1 2024 9 30 0 False = ''Monday, January 1, 2024 at 09:30:00 AM''"
    by code_simp
  have r2: "render_date 2 12 31 1969 11 59 59 True = ''Wednesday, December 31, 1969 at 11:59:59 PM''"
    by code_simp
  have v1: "(ymd2ord (int 2024) (int 1) (int 1) - 719163) * 86400
        + int (9 mod 12 + (if False then 12 else 0)) * 3600 + int 30 * 60 + int 0 = 1704101400"
    by code_simp
  have v2: "(ymd2ord (int 1969) (int 12) (int 31) - 719163) * 86400
        + int (11 mod 12 + (if True then 12 else 0)) * 3600 + int 59 * 60 + int 59 = - 1"
    by code_simp
  have h1: "(0::nat) < 7 \<and> (1::nat) \<le> 1 \<and> (1::nat) \<le> 12 \<and> (1::nat) \<le> 1
      \<and> int 1 \<le> days_in_month (int 2024) (int 1)
      \<and> (1::nat) \<le> 2024 \<and> (2024::nat) \<le> 9999 \<and> (1::nat) \<le> 9 \<and> (9::nat) \<le> 12
      \<and> (30::nat) < 60 \<and> (0::nat) < 60"
    by code_simp
  have h2: "(2::nat) < 7 \<and> (1::nat) \<le> 12 \<and> (12::nat) \<le> 12 \<and> (1::nat) \<le> 31
      \<and> int 31 \<le> days_in_month (int 1969) (int 12)
      \<and> (1::nat) \<le> 1969 \<and> (1969::nat) \<le> 9999 \<and> (1::nat) \<le> 11 \<and> (11::nat) \<le> 12
      \<and> (59::nat) < 60 \<and> (59::nat) < 60"
    by code_simp
  have h3: "CHR ''T'' \<noteq> CHR ''C'' \<and> CHR ''T'' \<noteq> CHR ''M'' \<and> CHR ''T'' \<noteq> CHR ''m''
      \<and> \<not> is_space (CHR ''T'')"
    by code_simp
  have a: "datetime_to_epoch (''Monday, January 1, 2024 at 09:30:00 AM'' @ '' UTC'') = Inr (Some 1704101400)"
    using utc_is_the_only_token[of _ _ _ _ 0 1 1 2024 9 30 0 False] h1
    unfolding r1 v1 by blast
  have b: "datetime_to_epoch (''Monday, January 1, 2024 at 09:30:00 AM PS'' @ [CHR ''T'']) = Inr None"
    using utc_is_the_only_token[of _ _ "CHR ''T''" "''Monday, January 1, 2024 at 09:30:00 AM PS''"] h3
    by blast
  have c: "datetime_to_epoch (''Wednesday, December 31, 1969 at 11:59:59 PM'' @ '' UTC'') = Inr (Some (- 1))"
    using utc_is_the_only_token[of _ _ _ _ 2 12 31 1969 11 59 59 True] h2
    unfolding r2 v2 by blast
  show ?thesis using a b c by blast
qed

end
